theory Spec2Isabelle
  imports Main "HOL-Library.Word" "HOL-Library.Multiset"
begin

section \<open>The ereb telegraf input: data model and collection logic\<close>

text \<open>
  The source file \<^verbatim>\<open>src/ereb.go\<close> holds two revisions of the plugin, one after the
  other. The first (lines 1 to 220) is the earlier one; the second (lines 221 to 492)
  adds the trailing-slash normalisation, the error report, the \<^verbatim>\<open>/tasks\<close> request and
  the consecutive-error counter. Definitions of the second revision keep the source's
  names; those of the first carry the suffix \<open>_rev1\<close>.

  Go's \<^verbatim>\<open>int\<close> is taken as 64 bits wide. Strings are byte sequences, as in Go.
\<close>

subsection \<open>The Go library functions the plugin calls: \<^verbatim>\<open>strings\<close>\<close>

definition HasPrefix :: "string \<Rightarrow> string \<Rightarrow> bool" where
  "HasPrefix s pre = (length pre \<le> length s \<and> take (length pre) s = pre)"

definition HasSuffix :: "string \<Rightarrow> string \<Rightarrow> bool" where
  "HasSuffix s suf =
     (length suf \<le> length s \<and> drop (length s - length suf) s = suf)"

text \<open>\<^verbatim>\<open>strings.TrimRight(s, cutset)\<close> removes every trailing byte that is in the cutset.\<close>

definition TrimRight :: "string \<Rightarrow> string \<Rightarrow> string" where
  "TrimRight s cutset = rev (dropWhile (\<lambda>c. c \<in> set cutset) (rev s))"

subsection \<open>The Go library functions the plugin calls: \<^verbatim>\<open>strconv.Atoi\<close>\<close>

datatype num_error = ErrSyntax | ErrRange

definition maxUint64 :: nat where
  "maxUint64 = 18446744073709551615"

definition byte_of :: "char \<Rightarrow> nat" where
  "byte_of c = of_char c"

text \<open>\<^verbatim>\<open>lower(c)\<close> of strconv is \<^verbatim>\<open>c | ('x' - 'X')\<close>: it sets bit 5 of the byte.\<close>

definition lower :: "nat \<Rightarrow> nat" where
  "lower b = (if (b div 32) mod 2 = 0 then b + 32 else b)"

text \<open>
  The digit loop of \<^verbatim>\<open>ParseUint(s, 10, 64)\<close>. The accumulator is a \<^verbatim>\<open>uint64\<close>: the
  multiplication cannot wrap below the cutoff, the addition is written with its
  wrap-around. A byte that is no digit of base 10 ends the scan with a syntax error and
  the value 0; an overflow ends it at once with a range error and the largest value,
  before the bytes that follow are looked at.
\<close>

fun ParseUint_loop :: "nat \<Rightarrow> string \<Rightarrow> nat \<times> num_error option" where
  "ParseUint_loop n [] = (n, None)"
| "ParseUint_loop n (c # cs) =
     (let b = byte_of c in
      if \<not> (48 \<le> b \<and> b \<le> 57) \<and> \<not> (97 \<le> lower b \<and> lower b \<le> 122)
      then (0, Some ErrSyntax)
      else
        let d = (if 48 \<le> b \<and> b \<le> 57 then b - 48 else lower b - 97 + 10) in
        if d \<ge> 10 then (0, Some ErrSyntax)
        else if n \<ge> maxUint64 div 10 + 1 then (maxUint64, Some ErrRange)
        else
          let n10 = n * 10; n1 = (n10 + d) mod 2 ^ 64 in
          if n1 < n10 \<or> n1 > maxUint64 then (maxUint64, Some ErrRange)
          else ParseUint_loop n1 cs)"

definition ParseUint :: "string \<Rightarrow> nat \<times> num_error option" where
  "ParseUint s = (if s = [] then (0, Some ErrSyntax) else ParseUint_loop 0 s)"

text \<open>\<^verbatim>\<open>ParseInt(s, 10, 0)\<close> on a 64-bit platform; the result is an \<^verbatim>\<open>int64\<close>.\<close>

definition ParseInt :: "string \<Rightarrow> int \<times> num_error option" where
  "ParseInt s0 =
     (if s0 = [] then (0, Some ErrSyntax)
      else
        let neg = (hd s0 = CHR ''-'');
            s = (if hd s0 = CHR ''+'' \<or> hd s0 = CHR ''-'' then tl s0 else s0);
            (un, err) = ParseUint s;
            cutoff = (9223372036854775808 :: nat)
        in if err = Some ErrSyntax then (0, err)
           else if \<not> neg \<and> un \<ge> cutoff then (int cutoff - 1, Some ErrRange)
           else if neg \<and> un > cutoff then (- int cutoff, Some ErrRange)
           else (if neg then - int un else int un, None))"

text \<open>
  The fast path of \<^verbatim>\<open>Atoi\<close> for strings of 1 to 18 bytes: \<^verbatim>\<open>ch -= '0'\<close> wraps in a
  byte, so \<^verbatim>\<open>ch > 9\<close> holds for every byte that is not a decimal digit.
\<close>

fun Atoi_fast_loop :: "int \<Rightarrow> string \<Rightarrow> int option" where
  "Atoi_fast_loop n [] = Some n"
| "Atoi_fast_loop n (c # cs) =
     (let ch = (byte_of c + 256 - 48) mod 256 in
      if ch > 9 then None else Atoi_fast_loop (n * 10 + int ch) cs)"

definition Atoi :: "string \<Rightarrow> int \<times> num_error option" where
  "Atoi s0 =
     (if 0 < length s0 \<and> length s0 < 19 then
        let s = (if hd s0 = CHR ''-'' \<or> hd s0 = CHR ''+'' then tl s0 else s0) in
        if length s < 1 then (0, Some ErrSyntax)
        else (case Atoi_fast_loop 0 s of
                None \<Rightarrow> (0, Some ErrSyntax)
              | Some n \<Rightarrow> (if hd s0 = CHR ''-'' then - n else n, None))
      else ParseInt s0)"

subsection \<open>The exit-code scan of \<^verbatim>\<open>gatherTasks\<close> (second revision, lines 398 to 423)\<close>

text \<open>
  The loop over \<^verbatim>\<open>exitCodes\<close>; the first argument is \<^verbatim>\<open>lastErrorsCount\<close>. The counter
  never exceeds the number of entries, which a Go slice keeps below \<open>2^63\<close>, so the
  increment does not wrap and the counter is an unbounded integer here.
\<close>

fun exitCodes_loop :: "int \<Rightarrow> string list \<Rightarrow> int" where
  "exitCodes_loop lastErrorsCount [] = lastErrorsCount"
| "exitCodes_loop lastErrorsCount (exitCode # rest) =
     (if exitCode \<noteq> ''None'' then
        (let intExitCode = fst (Atoi exitCode) in
         if intExitCode > 0 then exitCodes_loop (lastErrorsCount + 1) rest
         else if intExitCode = 0 then exitCodes_loop 0 rest
         else exitCodes_loop lastErrorsCount rest)
      else exitCodes_loop lastErrorsCount rest)"

text \<open>The pair \<^verbatim>\<open>(lastExitCode, lastErrorsCount)\<close> as it stands after line 423.\<close>

definition exit_code_summary :: "string list \<Rightarrow> string \<times> int" where
  "exit_code_summary exitCodes =
     (if length exitCodes = 0 then (''-1'', 0)
      else (exitCodes ! (length exitCodes - 1), exitCodes_loop 0 exitCodes))"

subsection \<open>Data model\<close>

text \<open>
  A \<^verbatim>\<open>float64\<close> and an \<^verbatim>\<open>int64\<close> are only ever passed from the decoded document to the
  metric record, so both are kept as their 64 bits.
\<close>

type_synonym float64 = "64 word"
type_synonym int64 = "64 word"

text \<open>What \<^verbatim>\<open>encoding/json\<close> stores in an \<^verbatim>\<open>interface{}\<close>.\<close>

datatype json_value =
    JNull
  | JBool bool
  | JNumber float64
  | JString string
  | JArray "json_value list"
  | JObject "(string \<times> json_value) list"

record TaskStats =
  DurationAvg :: float64
  DurationMax :: int64
  DurationMin :: int64
  Error :: int64
  ExitCodes :: "string list"
  Success :: int64
  StatsTaskID :: string

text \<open>
  The element type of \<^verbatim>\<open>ErebStatus.NextTasks\<close>; an element of \<^verbatim>\<open>ErebTasks\<close> has the same
  fields and \<^verbatim>\<open>Stats\<close> besides.
\<close>

record NextTask =
  Cmd :: string
  CronSchedule :: string
  Description :: string
  Enabled :: bool
  Group :: string
  Name :: string
  ShellScripts :: "json_value list"
  TaskID :: string
  Timeout :: string
  TryMoreOnError :: bool

record ErebTask = NextTask +
  Stats :: TaskStats

record ErebStatus =
  NextRun :: float64
  NextTasks :: "NextTask list"
  PlannedTaskRunUuids :: "string list"
  State :: string

text \<open>The value of \<^verbatim>\<open>ErebStatus{}\<close>.\<close>

definition zero_ErebStatus :: ErebStatus where
  "zero_ErebStatus =
     \<lparr>NextRun = 0, NextTasks = [], PlannedTaskRunUuids = [], State = []\<rparr>"

subsection \<open>The environment: URL parser, HTTP client, JSON decoder, clock\<close>

record Userinfo =
  username :: string
  password :: string
  passwordSet :: bool

record URL =
  Scheme :: string
  User :: "Userinfo option"
  Host :: string
  Path :: string

record Request =
  Method :: string
  RequestURL :: string
  BasicAuth :: "(string \<times> string) option"

record Response =
  StatusCode :: int
  Body :: string

text \<open>
  \<^verbatim>\<open>Decoder.Decode\<close> first reads one complete JSON value from the body; when the body
  holds none (it is malformed, empty or cut short) the target is not touched. Otherwise
  the value is unmarshalled into the target, which may report an error of its own after
  it has stored what fits.
\<close>

datatype 'a decode_result = NoValue | Unmarshalled 'a bool

type_synonym 'a decoder = "string \<Rightarrow> 'a \<Rightarrow> 'a decode_result"

definition Decode :: "'a decoder \<Rightarrow> string \<Rightarrow> 'a \<Rightarrow> 'a \<times> bool" where
  "Decode dec body target =
     (case dec body target of
        NoValue \<Rightarrow> (target, True)
      | Unmarshalled t failed \<Rightarrow> (t, failed))"

text \<open>
  The target of the status request is a pointer to the pointer \<^verbatim>\<open>erebStatus\<close>, which a
  JSON \<^verbatim>\<open>null\<close> sets to nil: \<open>None\<close> below. The target of the task request is a slice.
\<close>

record world =
  url_Parse :: "string \<Rightarrow> string + URL"
  client_Do :: "Request \<Rightarrow> string + Response"
  decode_status :: "ErebStatus option decoder"
  decode_tasks :: "ErebTask list decoder"
  time_Now :: nat

subsection \<open>Metric records and the accumulator\<close>

datatype field_value =
    BoolField bool
  | IntField int
  | Int64Field int64
  | Float64Field float64
  | StringField string

record metric =
  measurement :: string
  m_fields :: "(string \<times> field_value) list"
  m_tags :: "(string \<times> string) list"
  m_time :: nat

datatype gather_error =
    UnableParse string string
  | UnableConnect string string
  | InvalidStatus string int
  | UrlError string

text \<open>
  What a unit of work does to the outside: the records and errors it hands to the
  accumulator, and the requests it hands to the HTTP client.
\<close>

record effects =
  metrics :: "metric list"
  reported :: "gather_error list"
  requests :: "Request list"

definition AddFields ::
  "string \<Rightarrow> (string \<times> field_value) list \<Rightarrow> (string \<times> string) list \<Rightarrow> nat \<Rightarrow> effects \<Rightarrow> effects"
where
  "AddFields name fs ts t e =
     e\<lparr>metrics := metrics e @ [\<lparr>measurement = name, m_fields = fs, m_tags = ts, m_time = t\<rparr>]\<rparr>"

definition AddError :: "gather_error \<Rightarrow> effects \<Rightarrow> effects" where
  "AddError err e = e\<lparr>reported := reported e @ [err]\<rparr>"

datatype 'a outcome = Panic | Return 'a

subsection \<open>\<^verbatim>\<open>getJson\<close> (lines 450 to 486; lines 179 to 214 differ in the timeouts only)\<close>

text \<open>
  The cached client and its timeouts are part of \<open>client_Do\<close>. \<^verbatim>\<open>http.NewRequest\<close> parses
  the URL with \<^verbatim>\<open>url.Parse\<close> again, so it succeeds where line 460 did.
\<close>

definition NewRequest :: "string \<Rightarrow> string \<Rightarrow> Request" where
  "NewRequest m requestUrl = \<lparr>Method = m, RequestURL = requestUrl, BasicAuth = None\<rparr>"

definition SetBasicAuth :: "Request \<Rightarrow> string \<Rightarrow> string \<Rightarrow> Request" where
  "SetBasicAuth req usr p = req\<lparr>BasicAuth := Some (usr, p)\<rparr>"

definition build_request :: "URL \<Rightarrow> string \<Rightarrow> Request" where
  "build_request u requestUrl =
     (let req = NewRequest ''GET'' requestUrl in
      case User u of
        None \<Rightarrow> req
      | Some ui \<Rightarrow> SetBasicAuth req (username ui) (password ui))"

definition getJson ::
  "world \<Rightarrow> 'a decoder \<Rightarrow> string \<Rightarrow> 'a \<Rightarrow> effects \<Rightarrow> (gather_error + 'a) \<times> effects"
where
  "getJson w dec requestUrl target e =
     (case url_Parse w requestUrl of
        Inl err \<Rightarrow> (Inl (UnableParse requestUrl err), e)
      | Inr u \<Rightarrow>
          (let req = build_request u requestUrl;
               e1 = e\<lparr>requests := requests e @ [req]\<rparr> in
           case client_Do w req of
             Inl err \<Rightarrow> (Inl (UnableConnect requestUrl err), e1)
           | Inr res \<Rightarrow>
               if StatusCode res \<noteq> 200
               then (Inl (InvalidStatus requestUrl (StatusCode res)), e1)
               else (Inr (fst (Decode dec (Body res) target)), e1)))"

subsection \<open>\<^verbatim>\<open>gatherStatus\<close>\<close>

type_synonym gatherFunc =
  "world \<Rightarrow> string \<Rightarrow> effects \<Rightarrow> gather_error option outcome \<times> effects"

text \<open>
  Lines 349 to 376. When \<^verbatim>\<open>url.Parse\<close> rejects the address, \<^verbatim>\<open>u\<close> is nil and \<^verbatim>\<open>u.Host\<close>
  panics; when the document was \<^verbatim>\<open>null\<close>, \<^verbatim>\<open>erebStatus.State\<close> panics.
\<close>

definition gatherStatus :: gatherFunc where
  "gatherStatus w serverAddr e =
     (case getJson w (decode_status w) (serverAddr @ ''/status'') (Some zero_ErebStatus) e of
        (Inl err, e1) \<Rightarrow> (Return (Some err), e1)
      | (Inr erebStatus, e1) \<Rightarrow>
          (case url_Parse w serverAddr of
             Inl perr \<Rightarrow> (Panic, e1)
           | Inr u \<Rightarrow>
               (let tags = [(''hostname'', Host u)];
                    now = time_Now w in
                case erebStatus of
                  None \<Rightarrow> (Panic, e1)
                | Some st \<Rightarrow>
                    (let is_running = (if State st = ''running'' then 1 else 0);
                         fs = [(''running'', IntField is_running),
                               (''tasks_queue_length'', IntField (int (length (NextTasks st)))),
                               (''next_run_in'', Float64Field (NextRun st))]
                     in (Return None, AddFields ''ereb_status'' fs tags now e1)))))"

text \<open>Lines 110 to 137: the first revision tags with \<^verbatim>\<open>host\<close> and reports a boolean.\<close>

definition gatherStatus_rev1 :: gatherFunc where
  "gatherStatus_rev1 w serverAddr e =
     (case getJson w (decode_status w) (serverAddr @ ''/status'') (Some zero_ErebStatus) e of
        (Inl err, e1) \<Rightarrow> (Return (Some err), e1)
      | (Inr erebStatus, e1) \<Rightarrow>
          (case url_Parse w serverAddr of
             Inl perr \<Rightarrow> (Panic, e1)
           | Inr u \<Rightarrow>
               (let tags = [(''host'', Host u)];
                    now = time_Now w in
                case erebStatus of
                  None \<Rightarrow> (Panic, e1)
                | Some st \<Rightarrow>
                    (let is_running = (if State st = ''running'' then True else False);
                         fs = [(''running'', BoolField is_running),
                               (''tasks_queue_length'', IntField (int (length (NextTasks st)))),
                               (''next_run_in'', Float64Field (NextRun st))]
                     in (Return None, AddFields ''ereb_status'' fs tags now e1)))))"

subsection \<open>\<^verbatim>\<open>gatherTasks\<close>\<close>

text \<open>The two map literals of the loop over the tasks, lines 393 to 396 and 398 to 440.\<close>

definition gatherTasks_tags :: "URL \<Rightarrow> ErebTask \<Rightarrow> (string \<times> string) list" where
  "gatherTasks_tags u task = [(''hostname'', Host u), (''task_tag'', Name task)]"

definition gatherTasks_fields :: "ErebTask \<Rightarrow> (string \<times> field_value) list" where
  "gatherTasks_fields task =
     (let exitCodes = ExitCodes (Stats task);
          (lastExitCode, lastErrorsCount) = exit_code_summary exitCodes;
          taskTimeout = fst (Atoi (Timeout task))
      in [(''task_name'', StringField (Name task)),
          (''enabled'', BoolField (Enabled task)),
          (''success_count'', Int64Field (Success (Stats task))),
          (''errors_count'', Int64Field (Error (Stats task))),
          (''avg_duration'', Float64Field (DurationAvg (Stats task))),
          (''max_duration'', Int64Field (DurationMax (Stats task))),
          (''min_duration'', Int64Field (DurationMin (Stats task))),
          (''timeout'', IntField taskTimeout),
          (''last_exit_code'', StringField lastExitCode),
          (''last_errors_count'', IntField lastErrorsCount)])"

text \<open>The loop over the tasks, lines 391 to 443.\<close>

fun gatherTasks_loop :: "URL \<Rightarrow> nat \<Rightarrow> ErebTask list \<Rightarrow> effects \<Rightarrow> effects" where
  "gatherTasks_loop u now [] e = e"
| "gatherTasks_loop u now (task # rest) e =
     gatherTasks_loop u now rest
       (AddFields ''ereb_tasks'' (gatherTasks_fields task) (gatherTasks_tags u task) now e)"

text \<open>
  Lines 379 to 446. \<^verbatim>\<open>u.Host\<close> is read inside the loop only: with no task, a rejected
  address is returned as the error of \<^verbatim>\<open>url.Parse\<close>; with a task it panics.
\<close>

definition gatherTasks :: gatherFunc where
  "gatherTasks w serverAddr e =
     (let now = time_Now w in
      case getJson w (decode_tasks w) (serverAddr @ ''/tasks'') [] e of
        (Inl err, e1) \<Rightarrow> (Return (Some err), e1)
      | (Inr erebTasks, e1) \<Rightarrow>
          (case url_Parse w serverAddr of
             Inl perr \<Rightarrow>
               if erebTasks = [] then (Return (Some (UrlError perr)), e1) else (Panic, e1)
           | Inr u \<Rightarrow> (Return None, gatherTasks_loop u now erebTasks e1)))"

text \<open>
  The map literals of the first revision, lines 152 to 155 and 157 to 168: line 167
  indexes the history at \<^verbatim>\<open>len(exitCodes) - 1\<close>, which panics when the index is out of
  range.
\<close>

definition gatherTasks_tags_rev1 :: "URL \<Rightarrow> ErebTask \<Rightarrow> (string \<times> string) list" where
  "gatherTasks_tags_rev1 u task = [(''host'', Host u), (''task_name'', Name task)]"

definition gatherTasks_fields_rev1 :: "ErebTask \<Rightarrow> (string \<times> field_value) list outcome" where
  "gatherTasks_fields_rev1 task =
     (let exitCodes = ExitCodes (Stats task);
          taskTimeout = fst (Atoi (Timeout task));
          i = int (length exitCodes) - 1
      in if \<not> (0 \<le> i \<and> i < int (length exitCodes)) then Panic
         else Return
           [(''enabled'', BoolField (Enabled task)),
            (''success_count'', Int64Field (Success (Stats task))),
            (''errors_count'', Int64Field (Error (Stats task))),
            (''avg_duration'', Float64Field (DurationAvg (Stats task))),
            (''max_duration'', Int64Field (DurationMax (Stats task))),
            (''min_duration'', Int64Field (DurationMin (Stats task))),
            (''timeout'', IntField taskTimeout),
            (''last_exit_code'', StringField (exitCodes ! nat i))])"

text \<open>The loop of the first revision, lines 151 to 171.\<close>

fun gatherTasks_loop_rev1 ::
  "URL \<Rightarrow> nat \<Rightarrow> ErebTask list \<Rightarrow> effects \<Rightarrow> unit outcome \<times> effects"
where
  "gatherTasks_loop_rev1 u now [] e = (Return (), e)"
| "gatherTasks_loop_rev1 u now (task # rest) e =
     (case gatherTasks_fields_rev1 task of
        Panic \<Rightarrow> (Panic, e)
      | Return fs \<Rightarrow>
          gatherTasks_loop_rev1 u now rest
            (AddFields ''ereb_tasks'' fs (gatherTasks_tags_rev1 u task) now e))"

text \<open>Lines 140 to 175: the first revision asks for \<^verbatim>\<open>/status\<close> here as well.\<close>

definition gatherTasks_rev1 :: gatherFunc where
  "gatherTasks_rev1 w serverAddr e =
     (let now = time_Now w in
      case getJson w (decode_tasks w) (serverAddr @ ''/status'') [] e of
        (Inl err, e1) \<Rightarrow> (Return (Some err), e1)
      | (Inr erebTasks, e1) \<Rightarrow>
          (case url_Parse w serverAddr of
             Inl perr \<Rightarrow>
               if erebTasks = [] then (Return (Some (UrlError perr)), e1) else (Panic, e1)
           | Inr u \<Rightarrow>
               (case gatherTasks_loop_rev1 u now erebTasks e1 of
                  (Panic, e2) \<Rightarrow> (Panic, e2)
                | (Return _, e2) \<Rightarrow> (Return None, e2))))"

subsection \<open>\<^verbatim>\<open>Gather\<close>: the endpoint set\<close>

record ereb =
  Servers :: "string list"
  debug_mode :: bool

text \<open>Lines 310 to 312 (and 81 to 83): the default is appended to \<^verbatim>\<open>g.Servers\<close> itself.\<close>

definition default_Servers :: "ereb \<Rightarrow> ereb" where
  "default_Servers g =
     (if length (Servers g) = 0
      then g\<lparr>Servers := Servers g @ [''http://localhost:8888'']\<rparr>
      else g)"

text \<open>Lines 319 to 321, with \<^verbatim>\<open>trailingSlash\<close> of line 316.\<close>

definition trim_endpoint :: "string \<Rightarrow> string" where
  "trim_endpoint endpoint =
     (let trailingSlash = ''/'' in
      if HasSuffix endpoint trailingSlash then TrimRight endpoint trailingSlash else endpoint)"

text \<open>The loop of lines 317 to 325; the first argument is \<^verbatim>\<open>endpoints\<close>.\<close>

fun endpoints_loop :: "string list \<Rightarrow> string list \<Rightarrow> string list" where
  "endpoints_loop endpoints [] = endpoints"
| "endpoints_loop endpoints (endpoint # rest) =
     (if HasPrefix endpoint ''http''
      then endpoints_loop (endpoints @ [trim_endpoint endpoint]) rest
      else endpoints_loop endpoints rest)"

definition Gather_endpoints :: "ereb \<Rightarrow> string list" where
  "Gather_endpoints g = endpoints_loop [] (Servers (default_Servers g))"

text \<open>The loop of the first revision, lines 87 to 93, keeps a trailing slash.\<close>

fun endpoints_loop_rev1 :: "string list \<Rightarrow> string list \<Rightarrow> string list" where
  "endpoints_loop_rev1 endpoints [] = endpoints"
| "endpoints_loop_rev1 endpoints (endpoint # rest) =
     (if HasPrefix endpoint ''http'' then endpoints_loop_rev1 (endpoints @ [endpoint]) rest
      else endpoints_loop_rev1 endpoints rest)"

definition Gather_endpoints_rev1 :: "ereb \<Rightarrow> string list" where
  "Gather_endpoints_rev1 g = endpoints_loop_rev1 [] (Servers (default_Servers g))"

subsection \<open>\<^verbatim>\<open>Gather\<close>: the units of work\<close>

definition gatherFunctions :: "gatherFunc list" where
  "gatherFunctions = [gatherStatus, gatherTasks]"

definition gatherFunctions_rev1 :: "gatherFunc list" where
  "gatherFunctions_rev1 = [gatherStatus_rev1, gatherTasks_rev1]"

text \<open>
  The function literal of lines 335 to 341: an error that \<^verbatim>\<open>gf\<close> returns goes to
  \<^verbatim>\<open>acc.AddError\<close>. The debug log is not part of the model.
\<close>

definition goroutine :: "world \<Rightarrow> string \<Rightarrow> gatherFunc \<Rightarrow> effects \<Rightarrow> unit outcome \<times> effects" where
  "goroutine w serv gf e =
     (case gf w serv e of
        (Panic, e1) \<Rightarrow> (Panic, e1)
      | (Return None, e1) \<Rightarrow> (Return (), e1)
      | (Return (Some err), e1) \<Rightarrow> (Return (), AddError err e1))"

text \<open>
  The function literal of lines 99 to 102 drops what \<^verbatim>\<open>gf\<close> returns. It reads the loop
  variable \<^verbatim>\<open>server\<close>, taken here with the value it had when the unit was started.
\<close>

definition goroutine_rev1 :: "world \<Rightarrow> string \<Rightarrow> gatherFunc \<Rightarrow> effects \<Rightarrow> unit outcome \<times> effects" where
  "goroutine_rev1 w server gf e =
     (case gf w server e of
        (Panic, e1) \<Rightarrow> (Panic, e1)
      | (Return r, e1) \<Rightarrow> (Return (), e1))"

text \<open>The \<^verbatim>\<open>go\<close> statements in the order in which the two nested loops reach them.\<close>

definition launch_list :: "gatherFunc list \<Rightarrow> string list \<Rightarrow> (string \<times> gatherFunc) list" where
  "launch_list gfs endpoints = concat (map (\<lambda>server. map (\<lambda>f. (server, f)) gfs) endpoints)"

subsection \<open>\<^verbatim>\<open>Gather\<close>: fan-out and join\<close>

text \<open>
  A configuration of one call of \<^verbatim>\<open>Gather\<close> after line 330: the \<^verbatim>\<open>go\<close> statements the
  loops have not reached yet, the units that were started and have not ended, those
  whose extractor has returned, those whose extractor has panicked, the counter of the
  wait group, what the units did so far, and what \<^verbatim>\<open>Gather\<close> returned once it has.
\<close>

record config =
  pending :: "(string \<times> gatherFunc) list"
  running :: "(string \<times> gatherFunc) list"
  completed :: "(string \<times> gatherFunc) list"
  panicked :: "(string \<times> gatherFunc) list"
  wg :: int
  eff :: effects
  returned :: "gather_error option option"

definition Gather_init :: "ereb \<Rightarrow> effects \<Rightarrow> config" where
  "Gather_init g e =
     (let endpoints = Gather_endpoints g in
      \<lparr>pending = launch_list gatherFunctions endpoints,
       running = [],
       completed = [],
       panicked = [],
       wg = int (length endpoints) * int (length gatherFunctions),
       eff = e,
       returned = None\<rparr>)"

text \<open>
  The steps. The loops start the next unit. A started unit runs to its end, after which
  its deferred \<^verbatim>\<open>wg.Done()\<close> of line 336 lowers the counter. A started unit panics: the
  deferred \<^verbatim>\<open>wg.Done()\<close> runs all the same while the panic unwinds, and the process
  ends some time later; until then the other goroutines go on, so no step asks whether a
  unit has panicked. \<^verbatim>\<open>wg.Wait()\<close> of line 345 is reached when the loops are over and
  looks at the counter only; once it is zero, line 346 returns nil. Units are started in
  the order of the loops and end in any order.
\<close>

inductive gather_step :: "world \<Rightarrow> config \<Rightarrow> config \<Rightarrow> bool" for w :: world where
  launch:
    "pending c = u # us \<Longrightarrow>
     gather_step w c (c\<lparr>pending := us, running := running c @ [u]\<rparr>)"
| finish:
    "i < length (running c) \<Longrightarrow> running c ! i = (serv, gf) \<Longrightarrow>
     goroutine w serv gf (eff c) = (Return (), e') \<Longrightarrow>
     gather_step w c
       (c\<lparr>running := take i (running c) @ drop (Suc i) (running c),
          completed := completed c @ [(serv, gf)],
          wg := wg c - 1,
          eff := e'\<rparr>)"
| panic:
    "i < length (running c) \<Longrightarrow> running c ! i = (serv, gf) \<Longrightarrow>
     goroutine w serv gf (eff c) = (Panic, e') \<Longrightarrow>
     gather_step w c
       (c\<lparr>running := take i (running c) @ drop (Suc i) (running c),
          panicked := panicked c @ [(serv, gf)],
          wg := wg c - 1,
          eff := e'\<rparr>)"
| wait_return:
    "pending c = [] \<Longrightarrow> wg c = 0 \<Longrightarrow> returned c = None \<Longrightarrow>
     gather_step w c (c\<lparr>returned := Some None\<rparr>)"

definition reachable :: "world \<Rightarrow> ereb \<Rightarrow> effects \<Rightarrow> config \<Rightarrow> bool" where
  "reachable w g e c = (gather_step w)\<^sup>*\<^sup>* (Gather_init g e) c"

subsection \<open>The notions the specification uses\<close>

text \<open>
  A decimal integer encoded as text: an optional sign and one or more decimal digits.
  Its value is the integer it denotes, of any size.
\<close>

definition is_digit :: "char \<Rightarrow> bool" where
  "is_digit c = (48 \<le> byte_of c \<and> byte_of c \<le> 57)"

fun digits_value_from :: "nat \<Rightarrow> string \<Rightarrow> nat" where
  "digits_value_from n [] = n"
| "digits_value_from n (c # cs) = digits_value_from (n * 10 + (byte_of c - 48)) cs"

definition is_decimal :: "string \<Rightarrow> bool" where
  "is_decimal s =
     (case s of
        [] \<Rightarrow> False
      | c # cs \<Rightarrow>
          if c = CHR ''+'' \<or> c = CHR ''-'' then cs \<noteq> [] \<and> list_all is_digit cs
          else list_all is_digit s)"

definition decimal_value :: "string \<Rightarrow> int" where
  "decimal_value s =
     (case s of
        [] \<Rightarrow> 0
      | c # cs \<Rightarrow>
          if c = CHR ''-'' then - int (digits_value_from 0 cs)
          else if c = CHR ''+'' then int (digits_value_from 0 cs)
          else int (digits_value_from 0 s))"

definition clamp_int64 :: "int \<Rightarrow> int" where
  "clamp_int64 v = max (- 9223372036854775808) (min 9223372036854775807 v)"

definition int64_range_error :: "int \<Rightarrow> num_error option" where
  "int64_range_error v =
     (if - 9223372036854775808 \<le> v \<and> v \<le> 9223372036854775807 then None else Some ErrRange)"

text \<open>
  The scan as the specification words it: \<^verbatim>\<open>"None"\<close> is skipped, a numeric entry with a
  nonzero value increments the counter, a numeric entry with value zero resets it.
\<close>

definition spec_scan_step :: "int \<Rightarrow> string \<Rightarrow> int" where
  "spec_scan_step counter entry =
     (if entry = ''None'' then counter
      else if decimal_value entry \<noteq> 0 then counter + 1
      else 0)"

definition spec_last_errors_count :: "string list \<Rightarrow> int" where
  "spec_last_errors_count history = foldl spec_scan_step 0 history"

text \<open>The scan with the three cases the code distinguishes.\<close>

definition signed_scan_step :: "int \<Rightarrow> string \<Rightarrow> int" where
  "signed_scan_step counter entry =
     (if entry = ''None'' then counter
      else if decimal_value entry > 0 then counter + 1
      else if decimal_value entry = 0 then 0
      else counter)"

definition signed_last_errors_count :: "string list \<Rightarrow> int" where
  "signed_last_errors_count history = foldl signed_scan_step 0 history"

definition well_formed_history :: "string list \<Rightarrow> bool" where
  "well_formed_history history = list_all (\<lambda>entry. entry = ''None'' \<or> is_decimal entry) history"

text \<open>An entry that begins with an HTTP scheme, as the specification words it.\<close>

definition begins_with_http_scheme :: "string \<Rightarrow> bool" where
  "begins_with_http_scheme s = (HasPrefix s ''http://'' \<or> HasPrefix s ''https://'')"

subsection \<open>A small environment to run the extractors in\<close>

text \<open>
  A stand-in for \<^verbatim>\<open>url.Parse\<close> that accepts \<^verbatim>\<open>http://host/path\<close> without user
  information, two documents with the values they decode to, and a world built from a
  table of responses.
\<close>

definition test_Parse :: "string \<Rightarrow> string + URL" where
  "test_Parse s =
     (if HasPrefix s ''http://''
      then Inr \<lparr>Scheme = ''http'', User = None,
                Host = takeWhile (\<lambda>c. c \<noteq> CHR ''/'') (drop 7 s),
                Path = dropWhile (\<lambda>c. c \<noteq> CHR ''/'') (drop 7 s)\<rparr>
      else Inl ''unsupported address'')"

definition test_next_task :: NextTask where
  "test_next_task =
     \<lparr>Cmd = ''backup.sh'', CronSchedule = ''* * * * *'', Description = [], Enabled = True,
      Group = [], Name = ''backup'', ShellScripts = [], TaskID = ''t1'', Timeout = ''60'',
      TryMoreOnError = False\<rparr>"

definition test_status :: ErebStatus where
  "test_status =
     \<lparr>NextRun = 17, NextTasks = [test_next_task, test_next_task],
      PlannedTaskRunUuids = [], State = ''running''\<rparr>"

definition test_task :: "string list \<Rightarrow> ErebTask" where
  "test_task history =
     \<lparr>Cmd = ''backup.sh'', CronSchedule = ''* * * * *'', Description = [], Enabled = True,
      Group = [], Name = ''backup'', ShellScripts = [], TaskID = ''t1'', Timeout = ''60'',
      TryMoreOnError = False,
      Stats = \<lparr>DurationAvg = 3, DurationMax = 5, DurationMin = 1, Error = 4,
               ExitCodes = history, Success = 9, StatsTaskID = ''t1''\<rparr>\<rparr>"

definition test_decode_status :: "ErebStatus option decoder" where
  "test_decode_status body target =
     (if body = ''{status}'' then Unmarshalled (Some test_status) False
      else if body = ''null'' then Unmarshalled None False
      else NoValue)"

definition test_decode_tasks :: "ErebTask list decoder" where
  "test_decode_tasks body target =
     (if body = ''[tasks]'' then Unmarshalled [test_task [''1'', ''0'', ''2'', ''3'']] False
      else if body = ''[idle]'' then Unmarshalled [test_task []] False
      else NoValue)"

definition test_world :: "(string \<times> int \<times> string) list \<Rightarrow> world" where
  "test_world table =
     \<lparr>url_Parse = test_Parse,
      client_Do = (\<lambda>req. case map_of table (RequestURL req) of
                     None \<Rightarrow> Inl ''connection refused''
                   | Some (code, body) \<Rightarrow> Inr \<lparr>StatusCode = code, Body = body\<rparr>),
      decode_status = test_decode_status,
      decode_tasks = test_decode_tasks,
      time_Now = 1000\<rparr>"

definition no_effects :: effects where
  "no_effects = \<lparr>metrics = [], reported = [], requests = []\<rparr>"

subsection \<open>What the units add, and what holds until the join\<close>

text \<open>What one unit adds to what the others did.\<close>

definition append_effects :: "effects \<Rightarrow> effects \<Rightarrow> effects" where
  "append_effects e d =
     \<lparr>metrics = metrics e @ metrics d,
      reported = reported e @ reported d,
      requests = requests e @ requests d\<rparr>"

text \<open>What a unit of work adds when it runs: its requests, records and reported errors.\<close>

definition unit_effects :: "world \<Rightarrow> string \<times> gatherFunc \<Rightarrow> effects" where
  "unit_effects w u = snd (goroutine w (fst u) (snd u) no_effects)"


text \<open>
  What holds of every configuration that a call of \<^verbatim>\<open>Gather\<close> reaches, for the units
  \<open>units\<close> it has to start and the effects \<open>e\<close> it starts from: every unit is in exactly
  one of the four stages; the counter of the wait group is the number of units that have
  not ended; the units that have ended are those whose extractor has returned and those
  whose extractor has panicked; what has been sent, recorded and reported is what \<open>e\<close>
  held and what each ended unit adds, once for each; and once \<^verbatim>\<open>Gather\<close> has returned,
  it has returned nil and no unit is waiting to start or still running.
\<close>

definition join_invariant ::
  "world \<Rightarrow> (string \<times> gatherFunc) list \<Rightarrow> effects \<Rightarrow> config \<Rightarrow> bool"
where
  "join_invariant w units e c \<longleftrightarrow>
     mset (pending c) + mset (running c) + mset (completed c) + mset (panicked c) = mset units \<and>
     wg c = int (length (pending c)) + int (length (running c)) \<and>
     (\<forall>u \<in> set (completed c). fst (goroutine w (fst u) (snd u) no_effects) = Return ()) \<and>
     (\<forall>u \<in> set (panicked c). fst (goroutine w (fst u) (snd u) no_effects) = Panic) \<and>
     mset (requests (eff c)) =
       mset (requests e) +
       sum_mset (image_mset (\<lambda>u. mset (requests (unit_effects w u)))
                   (mset (completed c) + mset (panicked c))) \<and>
     mset (metrics (eff c)) =
       mset (metrics e) +
       sum_mset (image_mset (\<lambda>u. mset (metrics (unit_effects w u)))
                   (mset (completed c) + mset (panicked c))) \<and>
     mset (reported (eff c)) =
       mset (reported e) +
       sum_mset (image_mset (\<lambda>u. mset (reported (unit_effects w u)))
                   (mset (completed c) + mset (panicked c))) \<and>
     (returned c \<noteq> None \<longrightarrow> returned c = Some None \<and> pending c = [] \<and> running c = [])"

subsection \<open>\<^verbatim>\<open>strconv.Atoi\<close> on decimal text\<close>

lemma byte_of_lt: "byte_of c < 256"
  by (simp add: byte_of_def)

lemma digits_value_from_ge: "n \<le> digits_value_from n cs"
proof (induction cs arbitrary: n)
  case Nil show ?case by simp
next
  case (Cons c cs)
  have "n \<le> n * 10 + (byte_of c - 48)" by simp
  also have "\<dots> \<le> digits_value_from (n * 10 + (byte_of c - 48)) cs" by (rule Cons.IH)
  finally show ?case by simp
qed

lemma Atoi_fast_loop_digits:
  "list_all is_digit cs \<Longrightarrow> Atoi_fast_loop (int n) cs = Some (int (digits_value_from n cs))"
proof (induction cs arbitrary: n)
  case Nil show ?case by simp
next
  case (Cons c cs)
  from Cons.prems have dc: "is_digit c" and r: "list_all is_digit cs" by simp_all
  from dc have d: "48 \<le> byte_of c" "byte_of c \<le> 57" by (simp_all add: is_digit_def)
  define dv where "dv = byte_of c - 48"
  from d have "byte_of c + 256 - 48 = 256 + dv" by (simp add: dv_def)
  moreover from d have "dv < 256" by (simp add: dv_def)
  ultimately have ch: "(byte_of c + 256 - 48) mod 256 = dv" by simp
  from d have dv9: "\<not> 9 < dv" by (simp add: dv_def)
  have v: "digits_value_from n (c # cs) = digits_value_from (n * 10 + dv) cs"
    by (simp only: digits_value_from.simps dv_def)
  have "Atoi_fast_loop (int n) (c # cs) = Atoi_fast_loop (int n * 10 + int dv) cs"
    by (simp only: Atoi_fast_loop.simps Let_def ch dv9 if_False)
  also have "int n * 10 + int dv = int (n * 10 + dv)" by simp
  also have "Atoi_fast_loop (int (n * 10 + dv)) cs = Some (int (digits_value_from (n * 10 + dv) cs))"
    by (rule Cons.IH [OF r])
  finally show ?case by (simp only: v)
qed

lemma Atoi_fast_loop_nondigit:
  "\<not> list_all is_digit cs \<Longrightarrow> Atoi_fast_loop n cs = None"
proof (induction cs arbitrary: n)
  case Nil then show ?case by simp
next
  case (Cons c cs)
  show ?case
  proof (cases "is_digit c")
    case True
    with Cons.prems have "\<not> list_all is_digit cs" by simp
    from Cons.IH [OF this] show ?thesis by (simp add: Let_def)
  next
    case False
    have lt: "byte_of c < 256" by (rule byte_of_lt)
    from False have "byte_of c < 48 \<or> 57 < byte_of c" by (auto simp: is_digit_def)
    then have "(byte_of c + 256 - 48) mod 256 > 9"
    proof
      assume "byte_of c < 48"
      then have "(byte_of c + 256 - 48) mod 256 = byte_of c + 208" by simp
      then show ?thesis by simp
    next
      assume a: "57 < byte_of c"
      with lt have "(byte_of c + 256 - 48) mod 256 = byte_of c - 48"
        by (simp add: mod_if)
      with a show ?thesis by simp
    qed
    then show ?thesis by (simp add: Let_def)
  qed
qed

lemma ParseUint_loop_digits:
  "list_all is_digit cs \<Longrightarrow> n \<le> maxUint64 \<Longrightarrow>
   ParseUint_loop n cs =
     (if digits_value_from n cs \<le> maxUint64 then (digits_value_from n cs, None)
      else (maxUint64, Some ErrRange))"
proof (induction cs arbitrary: n)
  case Nil then show ?case by simp
next
  case (Cons c cs)
  from Cons.prems have dc: "is_digit c" and r: "list_all is_digit cs" by simp_all
  from dc have d: "48 \<le> byte_of c" "byte_of c \<le> 57" by (simp_all add: is_digit_def)
  define dv where "dv = byte_of c - 48"
  from d have dv9: "dv \<le> 9" by (simp add: dv_def)
  have v: "digits_value_from n (c # cs) = digits_value_from (n * 10 + dv) cs"
    by (simp only: digits_value_from.simps dv_def)
  have ge: "n * 10 + dv \<le> digits_value_from (n * 10 + dv) cs" by (rule digits_value_from_ge)
  have dg: "48 \<le> byte_of c \<and> byte_of c \<le> 57" using d by simp
  have step: "ParseUint_loop n (c # cs) =
      (if n \<ge> maxUint64 div 10 + 1 then (maxUint64, Some ErrRange)
       else if (n * 10 + dv) mod 2 ^ 64 < n * 10 \<or> (n * 10 + dv) mod 2 ^ 64 > maxUint64
            then (maxUint64, Some ErrRange)
            else ParseUint_loop ((n * 10 + dv) mod 2 ^ 64) cs)"
  proof -
    have nd: "\<not> 10 \<le> dv" using dv9 by simp
    show ?thesis
      unfolding ParseUint_loop.simps Let_def dv_def [symmetric]
      using dg nd by (simp only: simp_thms if_False if_True dv_def [symmetric])
  qed
  show ?case
  proof (cases "n \<ge> maxUint64 div 10 + 1")
    case True
    then have "maxUint64 < n * 10 + dv" by (simp add: maxUint64_def)
    with ge have "maxUint64 < digits_value_from (n * 10 + dv) cs" by linarith
    with True show ?thesis unfolding step v by simp
  next
    case False
    then have n10: "n * 10 \<le> 18446744073709551610" by (simp add: maxUint64_def)
    show ?thesis
    proof (cases "n * 10 + dv \<le> maxUint64")
      case le: True
      then have m: "(n * 10 + dv) mod 2 ^ 64 = n * 10 + dv" by (simp add: maxUint64_def)
      from False le m Cons.IH [OF r le] show ?thesis
        unfolding step v by simp
    next
      case gt: False
      then have big: "18446744073709551616 \<le> n * 10 + dv" by (simp add: maxUint64_def)
      moreover from n10 dv9 have "n * 10 + dv < 2 ^ 64 + 2 ^ 64" by simp
      ultimately have m: "(n * 10 + dv) mod 2 ^ 64 = n * 10 + dv - 2 ^ 64"
        by (simp add: mod_if)
      from big dv9 have lt: "n * 10 + dv - 2 ^ 64 < n * 10" by simp
      from gt ge have "maxUint64 < digits_value_from (n * 10 + dv) cs" by linarith
      with False lt m show ?thesis unfolding step v by simp
    qed
  qed
qed


lemma digits_value_from_lt:
  "list_all is_digit cs \<Longrightarrow> digits_value_from n cs < (n + 1) * 10 ^ length cs"
proof (induction cs arbitrary: n)
  case Nil show ?case by simp
next
  case (Cons c cs)
  from Cons.prems have dc: "is_digit c" and r: "list_all is_digit cs" by simp_all
  define dv where "dv = byte_of c - 48"
  from dc have dv9: "dv \<le> 9" by (auto simp: dv_def is_digit_def)
  have v: "digits_value_from n (c # cs) = digits_value_from (n * 10 + dv) cs"
    by (simp only: digits_value_from.simps dv_def)
  have "digits_value_from (n * 10 + dv) cs < (n * 10 + dv + 1) * 10 ^ length cs"
    by (rule Cons.IH [OF r])
  also have "\<dots> \<le> (n * 10 + 10) * 10 ^ length cs"
    using dv9 by (intro mult_right_mono) simp_all
  also have "\<dots> = (n + 1) * 10 ^ length (c # cs)" by (simp add: algebra_simps)
  finally show ?case unfolding v .
qed

lemma is_digit_not_sign: "is_digit c \<Longrightarrow> c \<noteq> CHR ''+'' \<and> c \<noteq> CHR ''-''"
  by (auto simp: is_digit_def byte_of_def)

lemma ParseUint_digits:
  assumes "list_all is_digit ds" "ds \<noteq> []"
  shows "ParseUint ds =
     (if digits_value_from 0 ds \<le> maxUint64 then (digits_value_from 0 ds, None)
      else (maxUint64, Some ErrRange))"
  using assms ParseUint_loop_digits [of ds 0] by (simp add: ParseUint_def)

lemma Atoi_short_digits:
  assumes ds: "list_all is_digit ds" and len: "length ds < 19"
  shows "Atoi_fast_loop 0 ds = Some (int (digits_value_from 0 ds))"
    and "int (digits_value_from 0 ds) < 1000000000000000000"
proof -
  from Atoi_fast_loop_digits [OF ds, of 0]
  show "Atoi_fast_loop 0 ds = Some (int (digits_value_from 0 ds))"
    by simp
  have "digits_value_from 0 ds < (0 + 1) * 10 ^ length ds" by (rule digits_value_from_lt [OF ds])
  also have "\<dots> = 10 ^ length ds" by simp
  also have "\<dots> \<le> (10 :: nat) ^ 18" using len by (intro power_increasing) simp_all
  finally have "digits_value_from 0 ds < 10 ^ 18" .
  then show "int (digits_value_from 0 ds) < 1000000000000000000" by simp
qed

lemma Atoi_unsigned:
  assumes ds: "list_all is_digit ds" "ds \<noteq> []"
  shows "Atoi ds = (clamp_int64 (int (digits_value_from 0 ds)),
                    int64_range_error (int (digits_value_from 0 ds)))"
proof (cases "length ds < 19")
  case True
  from ds obtain c cs where s: "ds = c # cs" by (cases ds) auto
  with ds have "is_digit c" by simp
  then have ns: "hd ds \<noteq> CHR ''+''" "hd ds \<noteq> CHR ''-''" using s is_digit_not_sign by auto
  from Atoi_short_digits [OF ds(1) True] ns ds(2) True show ?thesis
    by (simp add: Atoi_def clamp_int64_def int64_range_error_def)
next
  case False
  from ds obtain c cs where s: "ds = c # cs" by (cases ds) auto
  with ds have "is_digit c" by simp
  then have ns: "hd ds \<noteq> CHR ''+''" "hd ds \<noteq> CHR ''-''" using s is_digit_not_sign by auto
  have A: "Atoi ds = ParseInt ds" using False by (simp add: Atoi_def)
  show ?thesis
    unfolding A using ns ds(2) ParseUint_digits [OF ds]
    by (simp add: ParseInt_def clamp_int64_def int64_range_error_def maxUint64_def)
qed

lemma Atoi_plus:
  assumes ds: "list_all is_digit ds" "ds \<noteq> []"
  shows "Atoi (CHR ''+'' # ds) = (clamp_int64 (int (digits_value_from 0 ds)),
                    int64_range_error (int (digits_value_from 0 ds)))"
proof (cases "length (CHR ''+'' # ds) < 19")
  case True
  then have len: "length ds < 19" by simp
  from Atoi_short_digits [OF ds(1) len] ds(2) True show ?thesis
    by (simp add: Atoi_def clamp_int64_def int64_range_error_def)
next
  case False
  have A: "Atoi (CHR ''+'' # ds) = ParseInt (CHR ''+'' # ds)" using False by (simp add: Atoi_def)
  show ?thesis
    unfolding A using ds(2) ParseUint_digits [OF ds]
    by (simp add: ParseInt_def clamp_int64_def int64_range_error_def maxUint64_def)
qed

lemma Atoi_minus:
  assumes ds: "list_all is_digit ds" "ds \<noteq> []"
  shows "Atoi (CHR ''-'' # ds) = (clamp_int64 (- int (digits_value_from 0 ds)),
                    int64_range_error (- int (digits_value_from 0 ds)))"
proof (cases "length (CHR ''-'' # ds) < 19")
  case True
  then have len: "length ds < 19" by simp
  from Atoi_short_digits [OF ds(1) len] ds(2) True show ?thesis
    by (simp add: Atoi_def clamp_int64_def int64_range_error_def)
next
  case False
  have A: "Atoi (CHR ''-'' # ds) = ParseInt (CHR ''-'' # ds)" using False by (simp add: Atoi_def)
  show ?thesis
    unfolding A using ds(2) ParseUint_digits [OF ds]
    by (simp add: ParseInt_def clamp_int64_def int64_range_error_def maxUint64_def)
qed

lemma Atoi_decimal:
  assumes "is_decimal s"
  shows "Atoi s = (clamp_int64 (decimal_value s), int64_range_error (decimal_value s))"
proof -
  from assms obtain c cs where s: "s = c # cs" by (cases s) (auto simp: is_decimal_def)
  show ?thesis
  proof (cases "c = CHR ''+'' \<or> c = CHR ''-''")
    case True
    with assms s have ds: "list_all is_digit cs" "cs \<noteq> []" by (simp_all add: is_decimal_def)
    from True show ?thesis
    proof
      assume "c = CHR ''+''"
      with Atoi_plus [OF ds] s show ?thesis by (simp add: decimal_value_def)
    next
      assume "c = CHR ''-''"
      with Atoi_minus [OF ds] s show ?thesis by (simp add: decimal_value_def)
    qed
  next
    case False
    with assms s have ds: "list_all is_digit s" "s \<noteq> []" by (simp_all add: is_decimal_def)
    from False Atoi_unsigned [OF ds] s show ?thesis by (simp add: decimal_value_def)
  qed
qed

lemma Atoi_decimal_sign:
  assumes "is_decimal s"
  shows "(0 < fst (Atoi s)) = (0 < decimal_value s)"
    and "(fst (Atoi s) = 0) = (decimal_value s = 0)"
    and "(fst (Atoi s) < 0) = (decimal_value s < 0)"
  unfolding Atoi_decimal [OF assms] by (auto simp: clamp_int64_def)

subsection \<open>The exit-code scan\<close>

lemma None_not_decimal: "\<not> is_decimal ''None''"
  by (simp add: is_decimal_def is_digit_def byte_of_def)

lemma exitCodes_loop_step:
  "exitCodes_loop c (entry # rest) =
     exitCodes_loop
       (if entry = ''None'' then c
        else if fst (Atoi entry) > 0 then c + 1
        else if fst (Atoi entry) = 0 then 0
        else c) rest"
  by (simp add: Let_def)

lemma exitCodes_loop_signed:
  "well_formed_history history \<Longrightarrow>
   exitCodes_loop c history = foldl signed_scan_step c history"
proof (induction history arbitrary: c)
  case Nil
  show ?case by simp
next
  case (Cons entry rest)
  from Cons.prems have wf: "well_formed_history rest"
    and e: "entry = ''None'' \<or> is_decimal entry"
    by (simp_all add: well_formed_history_def)
  have step: "(if entry = ''None'' then c
        else if fst (Atoi entry) > 0 then c + 1
        else if fst (Atoi entry) = 0 then 0
        else c) = signed_scan_step c entry"
  proof (cases "entry = ''None''")
    case True
    then show ?thesis by (simp add: signed_scan_step_def)
  next
    case False
    with e have d: "is_decimal entry" by simp
    from False show ?thesis
      by (simp only: signed_scan_step_def Atoi_decimal_sign [OF d] if_False)
  qed
  show ?case
    unfolding exitCodes_loop_step step foldl_Cons by (rule Cons.IH [OF wf])
qed

lemma exitCodes_loop_append:
  "exitCodes_loop c (history @ [entry]) =
     (if entry = ''None'' then exitCodes_loop c history
      else if fst (Atoi entry) > 0 then exitCodes_loop c history + 1
      else if fst (Atoi entry) = 0 then 0
      else exitCodes_loop c history)"
proof (induction history arbitrary: c)
  case Nil
  show ?case by (simp add: Let_def)
next
  case (Cons x xs)
  show ?case
    unfolding append_Cons exitCodes_loop_step Cons.IH by (rule refl)
qed

lemma if_chain_cases:
  "(if A then x else if B then x else if C then y else if D then y else f m) = x \<or>
   (if A then x else if B then x else if C then y else if D then y else f m) = y \<or>
   (\<exists>m'. (if A then x else if B then x else if C then y else if D then y else f m) = f m')"
  by auto

lemma ParseUint_loop_cases:
  "ParseUint_loop n (c # cs) = (0, Some ErrSyntax) \<or>
   ParseUint_loop n (c # cs) = (maxUint64, Some ErrRange) \<or>
   (\<exists>m. ParseUint_loop n (c # cs) = ParseUint_loop m cs)"
  unfolding ParseUint_loop.simps Let_def
  by (rule if_chain_cases [where f = "\<lambda>m. ParseUint_loop m cs"])

lemma ParseUint_loop_syntax:
  "snd (ParseUint_loop n cs) = Some ErrSyntax \<Longrightarrow> fst (ParseUint_loop n cs) = 0"
proof (induction cs arbitrary: n)
  case Nil
  then show ?case by simp
next
  case (Cons c cs)
  from ParseUint_loop_cases [of n c cs] show ?case
  proof (elim disjE exE)
    assume "ParseUint_loop n (c # cs) = (0, Some ErrSyntax)"
    then show ?thesis by simp
  next
    assume "ParseUint_loop n (c # cs) = (maxUint64, Some ErrRange)"
    with Cons.prems show ?thesis by simp
  next
    fix m assume m: "ParseUint_loop n (c # cs) = ParseUint_loop m cs"
    with Cons.prems have "snd (ParseUint_loop m cs) = Some ErrSyntax" by simp
    from Cons.IH [OF this] m show ?thesis by simp
  qed
qed

lemma Atoi_syntax_zero:
  assumes "snd (Atoi s) = Some ErrSyntax"
  shows "fst (Atoi s) = 0"
proof (cases "0 < length s \<and> length s < 19")
  case True
  with assms show ?thesis
    by (auto simp: Atoi_def Let_def split: if_splits option.splits)
next
  case False
  then have A: "Atoi s = ParseInt s" by (auto simp: Atoi_def)
  from assms show ?thesis
    unfolding A
    by (auto simp: ParseInt_def Let_def split: if_splits prod.splits)
qed

text \<open>
  For every history of \<^verbatim>\<open>"None"\<close> entries and decimal integers, the emitted counter is
  the result of one left-to-right scan from zero that skips \<^verbatim>\<open>"None"\<close>, increments on a
  value above zero, resets to zero on the value zero and leaves the counter as it is on a
  value below zero.
\<close>

lemma last_errors_count_signed_scan:
  "well_formed_history history \<Longrightarrow>
   snd (exit_code_summary history) = signed_last_errors_count history"
proof (cases "history = []")
  case True
  then show ?thesis by (simp add: exit_code_summary_def signed_last_errors_count_def)
next
  case False
  assume "well_formed_history history"
  from exitCodes_loop_signed [OF this, of 0] False show ?thesis
    by (simp add: exit_code_summary_def signed_last_errors_count_def)
qed

lemma spec_scan_nonnegative_history:
  "well_formed_history history \<Longrightarrow> list_all (\<lambda>entry. 0 \<le> decimal_value entry) history \<Longrightarrow>
   foldl signed_scan_step c history = foldl spec_scan_step c history"
proof (induction history arbitrary: c)
  case Nil
  show ?case by simp
next
  case (Cons entry rest)
  from Cons.prems have wf: "well_formed_history rest"
    and nn: "list_all (\<lambda>entry. 0 \<le> decimal_value entry) rest"
    and e: "0 \<le> decimal_value entry"
    by (simp_all add: well_formed_history_def)
  from e have "signed_scan_step c entry = spec_scan_step c entry"
    by (auto simp: signed_scan_step_def spec_scan_step_def)
  with Cons.IH [OF wf nn] show ?case by simp
qed

lemma last_errors_count_spec_scan_nonnegative:
  "well_formed_history history \<Longrightarrow> list_all (\<lambda>entry. 0 \<le> decimal_value entry) history \<Longrightarrow>
   snd (exit_code_summary history) = spec_last_errors_count history"
  using last_errors_count_signed_scan [of history] spec_scan_nonnegative_history [of history 0]
  by (simp add: signed_last_errors_count_def spec_last_errors_count_def)

text \<open>
  C1: \<^verbatim>\<open>last_errors_count\<close> is to be the result of the scan from zero that skips
  \<^verbatim>\<open>"None"\<close>, increments on every numeric entry with a nonzero value and resets on the
  value zero. The code does so for histories without a negative entry
  (\<open>last_errors_count_spec_scan_nonnegative\<close>), and not otherwise: the comment of line 410
  announces a count of the non-zero exit codes, but line 415 tests \<^verbatim>\<open>intExitCode > 0\<close>, so
  a run that ended with a negative code is not counted. For the history of a run that
  failed with code 1 and a run that ended with code -9, the scan gives 2 and the code 1.
\<close>

theorem C1_negative_entry_not_counted:
  "well_formed_history [''1'', ''-9''] \<and>
   spec_last_errors_count [''1'', ''-9''] = 2 \<and>
   snd (exit_code_summary [''1'', ''-9'']) = 1"
  by (simp add: well_formed_history_def is_decimal_def is_digit_def byte_of_def
      spec_last_errors_count_def spec_scan_step_def decimal_value_def
      exit_code_summary_def Atoi_def)

lemma last_errors_count_after_zero:
  "history \<noteq> [] \<Longrightarrow> last history \<noteq> ''None'' \<Longrightarrow> fst (Atoi (last history)) = 0 \<Longrightarrow>
   snd (exit_code_summary history) = 0"
proof -
  assume ne: "history \<noteq> []" and n: "last history \<noteq> ''None''" and z: "fst (Atoi (last history)) = 0"
  from ne have h: "history = butlast history @ [last history]" by simp
  have "exitCodes_loop 0 (butlast history @ [last history]) = 0"
    unfolding exitCodes_loop_append using n z by simp
  with h ne show ?thesis by (simp add: exit_code_summary_def)
qed

lemma last_errors_count_examples:
  "exit_code_summary [''1'', ''0'', ''2'', ''3''] = (''3'', 2)"
  "exit_code_summary [''None'', ''1'', ''None'', ''2''] = (''2'', 2)"
  "exit_code_summary [''None'', ''None''] = (''None'', 0)"
  by (simp_all add: exit_code_summary_def Atoi_def byte_of_def)

lemma exitCodes_loop_nonneg: "0 \<le> c \<Longrightarrow> 0 \<le> exitCodes_loop c history"
proof (induction history arbitrary: c)
  case Nil
  then show ?case by simp
next
  case (Cons entry rest)
  have "0 \<le> (if entry = ''None'' then c
        else if fst (Atoi entry) > 0 then c + 1
        else if fst (Atoi entry) = 0 then 0
        else c)"
    using Cons.prems by simp
  from Cons.IH [OF this] show ?case unfolding exitCodes_loop_step .
qed

lemma Atoi_short_non_decimal:
  assumes len: "length s < 19" and nd: "\<not> is_decimal s"
  shows "Atoi s = (0, Some ErrSyntax)"
proof (cases s)
  case Nil
  then show ?thesis by (simp add: Atoi_def ParseInt_def)
next
  case (Cons c cs)
  show ?thesis
  proof (cases "c = CHR ''+'' \<or> c = CHR ''-''")
    case True
    show ?thesis
    proof (cases "cs = []")
      case True
      with \<open>c = CHR ''+'' \<or> c = CHR ''-''\<close> Cons show ?thesis by (auto simp: Atoi_def)
    next
      case False
      with True nd Cons have "\<not> list_all is_digit cs" by (auto simp: is_decimal_def)
      then have "Atoi_fast_loop 0 cs = None" by (rule Atoi_fast_loop_nondigit)
      with True False len Cons show ?thesis by (auto simp: Atoi_def)
    qed
  next
    case False
    with nd Cons have "\<not> list_all is_digit (c # cs)" by (simp add: is_decimal_def)
    then have "Atoi_fast_loop 0 (c # cs) = None" by (rule Atoi_fast_loop_nondigit)
    with False len Cons show ?thesis by (simp add: Atoi_def)
  qed
qed

text \<open>
  C10, as the claim states it, fails in its parenthesis: a parse that fails for the range
  of the value yields the nearest bound of the integer type, not zero, and the digit
  loop meets the range before it meets a malformed byte that comes later. The entry below
  is not numeric and is not \<^verbatim>\<open>"None"\<close>, and it increments the counter.
\<close>

theorem C10_failed_parse_counterexample:
  "Atoi ''99999999999999999999'' = (9223372036854775807, Some ErrRange) \<and>
   \<not> is_decimal ''99999999999999999999x'' \<and>
   ''99999999999999999999x'' \<noteq> ''None'' \<and>
   Atoi ''99999999999999999999x'' = (9223372036854775807, Some ErrRange) \<and>
   exitCodes_loop 0 [''1'', ''99999999999999999999x''] = 2"
proof -
  have r: "Atoi ''99999999999999999999'' = (9223372036854775807, Some ErrRange)"
    by (simp add: Atoi_def ParseInt_def ParseUint_def maxUint64_def byte_of_def Let_def)
  have x: "Atoi ''99999999999999999999x'' = (9223372036854775807, Some ErrRange)"
    by (simp add: Atoi_def ParseInt_def ParseUint_def maxUint64_def byte_of_def Let_def)
  have d: "\<not> is_decimal ''99999999999999999999x''"
    by (simp add: is_decimal_def is_digit_def byte_of_def)
  have one: "fst (Atoi ''1'') = 1"
    by (simp add: Atoi_def byte_of_def)
  have l: "exitCodes_loop 0 [''1'', ''99999999999999999999x''] = 2"
    unfolding exitCodes_loop_step by (simp add: x one)
  from r x d l show ?thesis by simp
qed

text \<open>
  C10, amended: in the exit-code scan, an entry other than \<^verbatim>\<open>"None"\<close> updates the counter
  by its parsed value: the counter is incremented when, and only when, the parse yields
  a value above zero; it is reset to zero when the parse yields zero, which is the case
  for every entry that the parser rejects for its syntax, among them every non-numeric
  entry of fewer than 19 bytes; it is left unchanged when the parse yields a value below
  zero.
\<close>

theorem C10_entry_update:
  "entry \<noteq> ''None'' \<Longrightarrow>
   (0 < fst (Atoi entry) \<longrightarrow>
      exitCodes_loop 0 (history @ [entry]) = exitCodes_loop 0 history + 1) \<and>
   (exitCodes_loop 0 (history @ [entry]) = exitCodes_loop 0 history + 1 \<longrightarrow>
      0 < fst (Atoi entry)) \<and>
   (fst (Atoi entry) = 0 \<longrightarrow> exitCodes_loop 0 (history @ [entry]) = 0) \<and>
   (snd (Atoi entry) = Some ErrSyntax \<longrightarrow> exitCodes_loop 0 (history @ [entry]) = 0) \<and>
   (length entry < 19 \<and> \<not> is_decimal entry \<longrightarrow> exitCodes_loop 0 (history @ [entry]) = 0) \<and>
   (fst (Atoi entry) < 0 \<longrightarrow>
      exitCodes_loop 0 (history @ [entry]) = exitCodes_loop 0 history)"
proof -
  assume n: "entry \<noteq> ''None''"
  have k: "0 \<le> exitCodes_loop 0 history" by (rule exitCodes_loop_nonneg) simp
  have s: "snd (Atoi entry) = Some ErrSyntax \<longrightarrow> fst (Atoi entry) = 0"
    using Atoi_syntax_zero by blast
  have t: "length entry < 19 \<and> \<not> is_decimal entry \<longrightarrow> fst (Atoi entry) = 0"
    using Atoi_short_non_decimal by auto
  from n k s t show ?thesis
    unfolding exitCodes_loop_append by auto
qed

theorem C10_entry_update_witness:
  "''7'' \<noteq> ''None'' \<and> 0 < fst (Atoi ''7'') \<and> exitCodes_loop 0 ([''1'', ''2''] @ [''7'']) = 3 \<and>
   ''0'' \<noteq> ''None'' \<and> fst (Atoi ''0'') = 0 \<and> exitCodes_loop 0 ([''1'', ''2''] @ [''0'']) = 0 \<and>
   ''1.5'' \<noteq> ''None'' \<and> snd (Atoi ''1.5'') = Some ErrSyntax \<and> length ''1.5'' < 19 \<and>
     \<not> is_decimal ''1.5'' \<and> exitCodes_loop 0 ([''1'', ''2''] @ [''1.5'']) = 0 \<and>
   ''-9'' \<noteq> ''None'' \<and> fst (Atoi ''-9'') < 0 \<and> exitCodes_loop 0 ([''1'', ''2''] @ [''-9'']) = 2"
proof -
  have a: "0 < fst (Atoi ''7'')" "fst (Atoi ''0'') = 0" "snd (Atoi ''1.5'') = Some ErrSyntax"
    "fst (Atoi ''-9'') < 0"
    by (simp_all add: Atoi_def byte_of_def)
  have d: "\<not> is_decimal ''1.5''" by (simp add: is_decimal_def is_digit_def byte_of_def)
  have h: "exitCodes_loop 0 [''1'', ''2''] = 2" by (simp add: Atoi_def byte_of_def)
  from C10_entry_update [of "''7''" "[''1'', ''2'']"]
       C10_entry_update [of "''0''" "[''1'', ''2'']"]
       C10_entry_update [of "''1.5''" "[''1'', ''2'']"]
       C10_entry_update [of "''-9''" "[''1'', ''2'']"] a d h
  show ?thesis by simp
qed

subsection \<open>The last exit code\<close>

lemma last_exit_code_rev2:
  "fst (exit_code_summary history) = (if history = [] then ''-1'' else last history)"
  "exit_code_summary [] = (''-1'', 0)"
  by (simp_all add: exit_code_summary_def last_conv_nth)

lemma gatherTasks_loop_rev1_empty_history:
  "ExitCodes (Stats task) = [] \<Longrightarrow> gatherTasks_loop_rev1 u now (task # rest) e = (Panic, e)"
  by (simp add: gatherTasks_fields_rev1_def)

text \<open>
  C2 holds for the second revision (\<open>last_exit_code_rev2\<close>) and fails in the first: line
  167 reads \<^verbatim>\<open>exitCodes[len(exitCodes) - 1]\<close> with no test for an empty history, so a task
  that has never run makes the extractor panic before it emits anything. Below, the
  server answers with one task whose history is empty.
\<close>

theorem C2_rev1_empty_history_panics:
  "gatherTasks_rev1 (test_world [(''http://h:8888/status'', 200, ''[idle]'')])
     ''http://h:8888'' no_effects =
   (Panic, no_effects\<lparr>requests :=
      [\<lparr>Method = ''GET'', RequestURL = ''http://h:8888/status'', BasicAuth = None\<rparr>]\<rparr>)"
  by (simp add: gatherTasks_rev1_def getJson_def test_world_def test_Parse_def HasPrefix_def
      build_request_def NewRequest_def Decode_def test_decode_tasks_def test_task_def
      no_effects_def gatherTasks_fields_rev1_def)

subsection \<open>\<^verbatim>\<open>getJson\<close>\<close>

lemma getJson_parse_error:
  "url_Parse w requestUrl = Inl err \<Longrightarrow>
   getJson w dec requestUrl target e = (Inl (UnableParse requestUrl err), e)"
  by (simp add: getJson_def)

lemma getJson_connect_error:
  "url_Parse w requestUrl = Inr u \<Longrightarrow> client_Do w (build_request u requestUrl) = Inl err \<Longrightarrow>
   getJson w dec requestUrl target e =
     (Inl (UnableConnect requestUrl err),
      e\<lparr>requests := requests e @ [build_request u requestUrl]\<rparr>)"
  by (simp add: getJson_def Let_def)

lemma getJson_status_error:
  "url_Parse w requestUrl = Inr u \<Longrightarrow> client_Do w (build_request u requestUrl) = Inr res \<Longrightarrow>
   StatusCode res \<noteq> 200 \<Longrightarrow>
   getJson w dec requestUrl target e =
     (Inl (InvalidStatus requestUrl (StatusCode res)),
      e\<lparr>requests := requests e @ [build_request u requestUrl]\<rparr>)"
  by (simp add: getJson_def Let_def)

lemma getJson_ok:
  "url_Parse w requestUrl = Inr u \<Longrightarrow> client_Do w (build_request u requestUrl) = Inr res \<Longrightarrow>
   StatusCode res = 200 \<Longrightarrow>
   getJson w dec requestUrl target e =
     (Inr (fst (Decode dec (Body res) target)),
      e\<lparr>requests := requests e @ [build_request u requestUrl]\<rparr>)"
  by (simp add: getJson_def Let_def)

lemma getJson_accumulator:
  "metrics (snd (getJson w dec requestUrl target e)) = metrics e"
  "reported (snd (getJson w dec requestUrl target e)) = reported e"
  by (simp_all add: getJson_def Let_def split: sum.splits)

lemma getJson_isl:
  "isl (fst (getJson w dec requestUrl target e)) =
     (case url_Parse w requestUrl of
        Inl err \<Rightarrow> True
      | Inr u \<Rightarrow>
          (case client_Do w (build_request u requestUrl) of
             Inl err \<Rightarrow> True
           | Inr res \<Rightarrow> StatusCode res \<noteq> 200))"
  by (simp add: getJson_def Let_def split: sum.splits)

lemma getJson_isl_any_target:
  "isl (fst (getJson w dec requestUrl target e)) = isl (fst (getJson w dec' requestUrl target' e'))"
  by (simp add: getJson_isl)

lemma RequestURL_build_request: "RequestURL (build_request u requestUrl) = requestUrl"
  by (simp add: build_request_def NewRequest_def SetBasicAuth_def Let_def split: option.splits)

lemma gatherStatus_fetch_error:
  "getJson w (decode_status w) (serverAddr @ ''/status'') (Some zero_ErebStatus) e = (Inl err, e1) \<Longrightarrow>
   gatherStatus w serverAddr e = (Return (Some err), e1)"
  by (simp add: gatherStatus_def)

lemma gatherTasks_fetch_error:
  "getJson w (decode_tasks w) (serverAddr @ ''/tasks'') [] e = (Inl err, e1) \<Longrightarrow>
   gatherTasks w serverAddr e = (Return (Some err), e1)"
  by (simp add: gatherTasks_def)

lemma fetch_error_no_metric:
  assumes "isl (fst (getJson w dec requestUrl target e))"
  obtains err e1 where "getJson w dec requestUrl target e = (Inl err, e1)" "metrics e1 = metrics e"
    "reported e1 = reported e"
proof -
  obtain r e1 where g: "getJson w dec requestUrl target e = (r, e1)" by (cases "getJson w dec requestUrl target e")
  with assms obtain err where "r = Inl err" by (cases r) auto
  moreover from g getJson_accumulator [of w dec requestUrl target e]
  have "metrics e1 = metrics e" "reported e1 = reported e" by simp_all
  ultimately show ?thesis using g that by blast
qed

text \<open>
  C5: \<^verbatim>\<open>getJson\<close> returns an error exactly when \<^verbatim>\<open>url.Parse\<close> rejects the URL, the client
  returns no response, or the status code of the response is not 200; every status code
  other than 200 gives the HTTP-status error of line 477, and after an error of
  \<^verbatim>\<open>getJson\<close> neither extractor adds a metric record.
\<close>

theorem C5_getJson_error_iff:
  "(isl (fst (getJson w dec requestUrl target e)) \<longleftrightarrow>
      (\<exists>err. url_Parse w requestUrl = Inl err) \<or>
      (\<exists>u err. url_Parse w requestUrl = Inr u \<and>
         client_Do w (build_request u requestUrl) = Inl err) \<or>
      (\<exists>u res. url_Parse w requestUrl = Inr u \<and>
         client_Do w (build_request u requestUrl) = Inr res \<and> StatusCode res \<noteq> 200)) \<and>
   (url_Parse w requestUrl = Inr u \<and> client_Do w (build_request u requestUrl) = Inr res \<and>
    StatusCode res \<noteq> 200 \<longrightarrow>
      fst (getJson w dec requestUrl target e) = Inl (InvalidStatus requestUrl (StatusCode res))) \<and>
   (isl (fst (getJson w (decode_status w) (serverAddr @ ''/status'') (Some zero_ErebStatus) e)) \<longrightarrow>
      metrics (snd (gatherStatus w serverAddr e)) = metrics e) \<and>
   (isl (fst (getJson w (decode_tasks w) (serverAddr @ ''/tasks'') [] e)) \<longrightarrow>
      metrics (snd (gatherTasks w serverAddr e)) = metrics e)"
proof (intro conjI impI)
  show "isl (fst (getJson w dec requestUrl target e)) \<longleftrightarrow>
      (\<exists>err. url_Parse w requestUrl = Inl err) \<or>
      (\<exists>u err. url_Parse w requestUrl = Inr u \<and>
         client_Do w (build_request u requestUrl) = Inl err) \<or>
      (\<exists>u res. url_Parse w requestUrl = Inr u \<and>
         client_Do w (build_request u requestUrl) = Inr res \<and> StatusCode res \<noteq> 200)"
    unfolding getJson_isl by (auto split: sum.splits)
next
  assume "url_Parse w requestUrl = Inr u \<and> client_Do w (build_request u requestUrl) = Inr res \<and>
    StatusCode res \<noteq> 200"
  then show "fst (getJson w dec requestUrl target e) = Inl (InvalidStatus requestUrl (StatusCode res))"
    by (simp add: getJson_status_error)
next
  assume "isl (fst (getJson w (decode_status w) (serverAddr @ ''/status'') (Some zero_ErebStatus) e))"
  then obtain err e1 where
    g: "getJson w (decode_status w) (serverAddr @ ''/status'') (Some zero_ErebStatus) e = (Inl err, e1)"
    and m: "metrics e1 = metrics e"
    by (rule fetch_error_no_metric)
  from gatherStatus_fetch_error [OF g] m
  show "metrics (snd (gatherStatus w serverAddr e)) = metrics e" by simp
next
  assume "isl (fst (getJson w (decode_tasks w) (serverAddr @ ''/tasks'') [] e))"
  then obtain err e1 where
    g: "getJson w (decode_tasks w) (serverAddr @ ''/tasks'') [] e = (Inl err, e1)"
    and m: "metrics e1 = metrics e"
    by (rule fetch_error_no_metric)
  from gatherTasks_fetch_error [OF g] m
  show "metrics (snd (gatherTasks w serverAddr e)) = metrics e" by simp
qed

lemmas test_world_defs =
  test_world_def test_Parse_def HasPrefix_def build_request_def NewRequest_def
  test_decode_status_def test_decode_tasks_def test_status_def test_task_def
  test_next_task_def no_effects_def zero_ErebStatus_def

theorem C5_getJson_error_iff_witness:
  "url_Parse (test_world [(''http://h:8888/status'', 204, ''{status}'')]) ''http://h:8888/status'' =
     Inr \<lparr>Scheme = ''http'', User = None, Host = ''h:8888'', Path = ''/status''\<rparr> \<and>
   client_Do (test_world [(''http://h:8888/status'', 204, ''{status}'')])
     (build_request \<lparr>Scheme = ''http'', User = None, Host = ''h:8888'', Path = ''/status''\<rparr>
        ''http://h:8888/status'') =
     Inr \<lparr>StatusCode = 204, Body = ''{status}''\<rparr> \<and>
   StatusCode \<lparr>StatusCode = 204, Body = ''{status}''\<rparr> \<noteq> 200 \<and>
   isl (fst (getJson (test_world [(''http://h:8888/status'', 204, ''{status}'')]) test_decode_status
          ''http://h:8888/status'' (Some zero_ErebStatus) no_effects)) \<and>
   fst (getJson (test_world [(''http://h:8888/status'', 204, ''{status}'')]) test_decode_status
          ''http://h:8888/status'' (Some zero_ErebStatus) no_effects) =
     Inl (InvalidStatus ''http://h:8888/status'' 204) \<and>
   metrics (snd (gatherStatus (test_world [(''http://h:8888/status'', 204, ''{status}'')])
                   ''http://h:8888'' no_effects)) = [] \<and>
   metrics (snd (gatherTasks (test_world [(''http://h:8888/status'', 204, ''{status}'')])
                   ''http://h:8888'' no_effects)) = []"
proof -
  let ?w = "test_world [(''http://h:8888/status'', 204, ''{status}'')]"
  let ?u = "\<lparr>Scheme = ''http'', User = None, Host = ''h:8888'', Path = ''/status''\<rparr>"
  let ?res = "\<lparr>StatusCode = 204, Body = ''{status}''\<rparr>"
  have p: "url_Parse ?w ''http://h:8888/status'' = Inr ?u"
    by (simp add: test_world_defs)
  have d: "client_Do ?w (build_request ?u ''http://h:8888/status'') = Inr ?res"
    by (simp add: test_world_defs)
  have s: "StatusCode ?res \<noteq> 200" by simp
  have ds: "decode_status ?w = test_decode_status" by (simp add: test_world_def)
  have t: "isl (fst (getJson ?w (decode_tasks ?w) (''http://h:8888'' @ ''/tasks'') [] no_effects))"
    by (simp add: getJson_isl) (simp add: test_world_defs)
  have m: "metrics no_effects = []" by (simp add: no_effects_def)
  from C5_getJson_error_iff [of ?w test_decode_status "''http://h:8888/status''"
         "Some zero_ErebStatus" no_effects ?u ?res "''http://h:8888''"]
       p d s t
  show ?thesis unfolding ds m by auto
qed




lemma decode_failure_not_reported:
  assumes "url_Parse w (serverAddr @ ''/status'') = Inr u"
    and "client_Do w (build_request u (serverAddr @ ''/status'')) = Inr res"
    and "StatusCode res = 200"
  shows "reported (snd (goroutine w serverAddr gatherStatus e)) = reported e"
  using assms
  by (simp add: goroutine_def gatherStatus_def getJson_ok Let_def AddFields_def
      split: sum.splits option.splits)

lemma decode_failure_status_record:
  assumes "url_Parse w (serverAddr @ ''/status'') = Inr u"
    and "client_Do w (build_request u (serverAddr @ ''/status'')) = Inr res"
    and "StatusCode res = 200"
    and "decode_status w (Body res) (Some zero_ErebStatus) = NoValue"
    and "url_Parse w serverAddr = Inr hu"
  shows "goroutine w serverAddr gatherStatus e =
     (Return (),
      AddFields ''ereb_status''
        [(''running'', IntField 0), (''tasks_queue_length'', IntField 0),
         (''next_run_in'', Float64Field 0)]
        [(''hostname'', Host hu)] (time_Now w)
        (e\<lparr>requests := requests e @ [build_request u (serverAddr @ ''/status'')]\<rparr>))"
  using assms
  by (simp add: goroutine_def gatherStatus_def getJson_ok Decode_def zero_ErebStatus_def Let_def)

subsection \<open>The status extractor\<close>

text \<open>
  C8: when the status request succeeds and decodes to a status document, and
  \<^verbatim>\<open>url.Parse\<close> accepts the address as it accepted the address with \<^verbatim>\<open>/status\<close> added, the
  status extractor adds exactly one record, of measurement \<^verbatim>\<open>ereb_status\<close>, whose
  \<^verbatim>\<open>running\<close> field is 1 exactly when the state is \<^verbatim>\<open>running\<close> and 0 otherwise, whose
  \<^verbatim>\<open>tasks_queue_length\<close> is the number of entries of \<^verbatim>\<open>next_tasks\<close>, and whose
  \<^verbatim>\<open>next_run_in\<close> is \<^verbatim>\<open>next_run\<close> unchanged; it returns no error.
\<close>

theorem C8_status_record:
  assumes "url_Parse w (serverAddr @ ''/status'') = Inr u"
    and "client_Do w (build_request u (serverAddr @ ''/status'')) = Inr res"
    and "StatusCode res = 200"
    and "decode_status w (Body res) (Some zero_ErebStatus) = Unmarshalled (Some st) failed"
    and "url_Parse w serverAddr = Inr hu"
  shows "\<exists>m. metrics (snd (gatherStatus w serverAddr e)) = metrics e @ [m] \<and>
     measurement m = ''ereb_status'' \<and>
     map_of (m_fields m) ''running'' = Some (IntField (if State st = ''running'' then 1 else 0)) \<and>
     (map_of (m_fields m) ''running'' = Some (IntField 1) \<longleftrightarrow> State st = ''running'') \<and>
     map_of (m_fields m) ''tasks_queue_length'' = Some (IntField (int (length (NextTasks st)))) \<and>
     map_of (m_fields m) ''next_run_in'' = Some (Float64Field (NextRun st)) \<and>
     map_of (m_tags m) ''hostname'' = Some (Host hu) \<and>
     fst (gatherStatus w serverAddr e) = Return None \<and>
     reported (snd (gatherStatus w serverAddr e)) = reported e"
  using assms
  by (simp add: gatherStatus_def getJson_ok Decode_def Let_def AddFields_def)

theorem C8_status_record_witness:
  "url_Parse (test_world [(''http://h:8888/status'', 200, ''{status}'')]) (''http://h:8888'' @ ''/status'') =
     Inr \<lparr>Scheme = ''http'', User = None, Host = ''h:8888'', Path = ''/status''\<rparr> \<and>
   client_Do (test_world [(''http://h:8888/status'', 200, ''{status}'')])
     (build_request \<lparr>Scheme = ''http'', User = None, Host = ''h:8888'', Path = ''/status''\<rparr>
        (''http://h:8888'' @ ''/status'')) =
     Inr \<lparr>StatusCode = 200, Body = ''{status}''\<rparr> \<and>
   decode_status (test_world [(''http://h:8888/status'', 200, ''{status}'')]) ''{status}''
     (Some zero_ErebStatus) = Unmarshalled (Some test_status) False \<and>
   url_Parse (test_world [(''http://h:8888/status'', 200, ''{status}'')]) ''http://h:8888'' =
     Inr \<lparr>Scheme = ''http'', User = None, Host = ''h:8888'', Path = []\<rparr> \<and>
   (\<exists>m. metrics (snd (gatherStatus (test_world [(''http://h:8888/status'', 200, ''{status}'')])
                        ''http://h:8888'' no_effects)) = [m] \<and>
        map_of (m_fields m) ''running'' = Some (IntField 1) \<and>
        map_of (m_fields m) ''tasks_queue_length'' = Some (IntField 2) \<and>
        map_of (m_fields m) ''next_run_in'' = Some (Float64Field 17))"
proof -
  let ?w = "test_world [(''http://h:8888/status'', 200, ''{status}'')]"
  let ?u = "\<lparr>Scheme = ''http'', User = None, Host = ''h:8888'', Path = ''/status''\<rparr>"
  let ?hu = "\<lparr>Scheme = ''http'', User = None, Host = ''h:8888'', Path = []\<rparr>"
  let ?res = "\<lparr>StatusCode = 200, Body = ''{status}''\<rparr>"
  have p: "url_Parse ?w (''http://h:8888'' @ ''/status'') = Inr ?u"
    by (simp add: test_world_defs)
  have d: "client_Do ?w (build_request ?u (''http://h:8888'' @ ''/status'')) = Inr ?res"
    by (simp add: test_world_defs)
  have s: "StatusCode ?res = 200" by simp
  have n: "decode_status ?w (Body ?res) (Some zero_ErebStatus) = Unmarshalled (Some test_status) False"
    by (simp add: test_world_def test_decode_status_def)
  have h: "url_Parse ?w ''http://h:8888'' = Inr ?hu"
    by (simp add: test_world_defs)
  have v: "State test_status = ''running''" "length (NextTasks test_status) = 2"
    "NextRun test_status = 17" "metrics no_effects = []"
    by (simp_all add: test_status_def no_effects_def)
  from C8_status_record [OF p d s n h, of no_effects] p d n h
  show ?thesis unfolding v by auto
qed

subsection \<open>What a unit of work adds\<close>

lemma gatherTasks_loop_metrics:
  "gatherTasks_loop u now tasks e =
     e\<lparr>metrics := metrics e @
        map (\<lambda>task. \<lparr>measurement = ''ereb_tasks'', m_fields = gatherTasks_fields task,
                      m_tags = gatherTasks_tags u task, m_time = now\<rparr>) tasks\<rparr>"
  by (induction tasks arbitrary: e) (simp_all add: AddFields_def)

lemma gatherTasks_loop_rev1_accumulator:
  "requests (snd (gatherTasks_loop_rev1 u now tasks e)) = requests e"
  "reported (snd (gatherTasks_loop_rev1 u now tasks e)) = reported e"
  by (induction tasks arbitrary: e) (simp_all add: AddFields_def split: outcome.splits)

lemma gatherTasks_request:
  "url_Parse w (serverAddr @ ''/tasks'') = Inr u \<Longrightarrow>
   requests (snd (gatherTasks w serverAddr e)) =
     requests e @ [build_request u (serverAddr @ ''/tasks'')]"
  by (simp add: gatherTasks_def getJson_def Let_def gatherTasks_loop_metrics split: sum.splits)

lemma gatherTasks_rev1_request:
  assumes "url_Parse w (serverAddr @ ''/status'') = Inr u"
  shows "requests (snd (gatherTasks_rev1 w serverAddr e)) =
     requests e @ [build_request u (serverAddr @ ''/status'')]"
proof -
  obtain r e1 where g: "getJson w (decode_tasks w) (serverAddr @ ''/status'') [] e = (r, e1)"
    by (cases "getJson w (decode_tasks w) (serverAddr @ ''/status'') [] e")
  from assms g have e1: "requests e1 = requests e @ [build_request u (serverAddr @ ''/status'')]"
    by (auto simp: getJson_def Let_def split: sum.splits if_splits)
  show ?thesis
  proof (cases r)
    case (Inl err)
    with g e1 show ?thesis by (simp add: gatherTasks_rev1_def)
  next
    case (Inr erebTasks)
    show ?thesis
    proof (cases "url_Parse w serverAddr")
      case (Inl perr)
      with Inr g e1 show ?thesis by (simp add: gatherTasks_rev1_def)
    next
      case hu: (Inr hu)
      obtain o2 e2 where l: "gatherTasks_loop_rev1 hu (time_Now w) erebTasks e1 = (o2, e2)"
        by (cases "gatherTasks_loop_rev1 hu (time_Now w) erebTasks e1")
      from gatherTasks_loop_rev1_accumulator(1) [of hu "time_Now w" erebTasks e1] l
      have "requests e2 = requests e1" by simp
      with Inr hu g e1 l show ?thesis
        by (simp add: gatherTasks_rev1_def split: outcome.splits)
    qed
  qed
qed

lemma getJson_frame:
  "getJson w dec requestUrl target e =
     (fst (getJson w dec requestUrl target no_effects),
      append_effects e (snd (getJson w dec requestUrl target no_effects)))"
  by (simp add: getJson_def Let_def append_effects_def no_effects_def split: sum.splits)

lemma gatherStatus_frame:
  "gatherStatus w serverAddr e =
     (fst (gatherStatus w serverAddr no_effects),
      append_effects e (snd (gatherStatus w serverAddr no_effects)))"
  by (simp add: gatherStatus_def getJson_def Let_def append_effects_def no_effects_def
      AddFields_def split: sum.splits option.splits)

lemma gatherTasks_frame:
  "gatherTasks w serverAddr e =
     (fst (gatherTasks w serverAddr no_effects),
      append_effects e (snd (gatherTasks w serverAddr no_effects)))"
  by (simp add: gatherTasks_def getJson_def Let_def append_effects_def no_effects_def
      gatherTasks_loop_metrics split: sum.splits)

lemma goroutine_frame_of:
  assumes "\<And>e. gf w serv e = (fst (gf w serv no_effects), append_effects e (snd (gf w serv no_effects)))"
  shows "goroutine w serv gf e =
     (fst (goroutine w serv gf no_effects),
      append_effects e (snd (goroutine w serv gf no_effects)))"
proof -
  obtain r d where d: "gf w serv no_effects = (r, d)" by (cases "gf w serv no_effects")
  with assms [of e] have g: "gf w serv e = (r, append_effects e d)" by simp
  show ?thesis
  proof (cases r)
    case Panic
    with d g show ?thesis by (simp add: goroutine_def)
  next
    case (Return x)
    with d g show ?thesis
      by (cases x) (simp_all add: goroutine_def AddError_def append_effects_def)
  qed
qed

lemma goroutine_frame:
  "gf \<in> set gatherFunctions \<Longrightarrow>
   goroutine w serv gf e =
     (fst (goroutine w serv gf no_effects),
      append_effects e (snd (goroutine w serv gf no_effects)))"
proof -
  assume "gf \<in> set gatherFunctions"
  then consider "gf = gatherStatus" | "gf = gatherTasks"
    by (auto simp: gatherFunctions_def)
  then show ?thesis
  proof cases
    case 1
    show ?thesis unfolding 1 by (rule goroutine_frame_of) (rule gatherStatus_frame)
  next
    case 2
    show ?thesis unfolding 2 by (rule goroutine_frame_of) (rule gatherTasks_frame)
  qed
qed

lemma getJson_own_response:
  assumes "url_Parse w' = url_Parse w"
    and "\<And>req. RequestURL req = requestUrl \<Longrightarrow> client_Do w' req = client_Do w req"
  shows "getJson w' dec requestUrl target e = getJson w dec requestUrl target e"
proof (cases "url_Parse w requestUrl")
  case (Inl err)
  with assms(1) show ?thesis by (simp add: getJson_def)
next
  case (Inr u)
  from assms(2) [of "build_request u requestUrl"]
  have "client_Do w' (build_request u requestUrl) = client_Do w (build_request u requestUrl)"
    by (simp add: RequestURL_build_request)
  with Inr assms(1) show ?thesis by (simp add: getJson_def)
qed

lemma gatherStatus_own_response:
  assumes "url_Parse w' = url_Parse w" "decode_status w' = decode_status w"
    and "time_Now w' = time_Now w"
    and "\<And>req. RequestURL req = serverAddr @ ''/status'' \<Longrightarrow> client_Do w' req = client_Do w req"
  shows "gatherStatus w' serverAddr e = gatherStatus w serverAddr e"
proof -
  have "getJson w' dec (serverAddr @ ''/status'') target e =
        getJson w dec (serverAddr @ ''/status'') target e" for dec :: "ErebStatus option decoder" and target
    by (rule getJson_own_response [OF assms(1)]) (rule assms(4))
  then show ?thesis unfolding gatherStatus_def assms(1) assms(2) assms(3) by simp
qed

lemma gatherTasks_own_response:
  assumes "url_Parse w' = url_Parse w" "decode_tasks w' = decode_tasks w"
    and "time_Now w' = time_Now w"
    and "\<And>req. RequestURL req = serverAddr @ ''/tasks'' \<Longrightarrow> client_Do w' req = client_Do w req"
  shows "gatherTasks w' serverAddr e = gatherTasks w serverAddr e"
proof -
  have "getJson w' dec (serverAddr @ ''/tasks'') target e =
        getJson w dec (serverAddr @ ''/tasks'') target e" for dec :: "ErebTask list decoder" and target
    by (rule getJson_own_response [OF assms(1)]) (rule assms(4))
  then show ?thesis unfolding gatherTasks_def assms(1) assms(2) assms(3) by simp
qed

lemma goroutine_reports_failure:
  "gf w serv e = (Return (Some err), e1) \<Longrightarrow> goroutine w serv gf e = (Return (), AddError err e1)"
  by (simp add: goroutine_def)

lemma goroutine_rev1_drops_failure:
  "gf w server e = (Return r, e1) \<Longrightarrow> goroutine_rev1 w server gf e = (Return (), e1)"
  by (simp add: goroutine_rev1_def)

text \<open>
  C7 holds for the second revision (\<open>gatherTasks_request\<close>) and fails in the first: line
  144 asks for \<^verbatim>\<open>/status\<close> (\<open>gatherTasks_rev1_request\<close>). Below, the server offers both
  documents; the task extractor of the first revision fetches the status document, finds
  no task list in it and emits nothing, where the second fetches \<^verbatim>\<open>/tasks\<close> and emits the
  record of the task.
\<close>

theorem C7_rev1_task_extractor_requests_status:
  "requests (snd (gatherTasks_rev1
       (test_world [(''http://h:8888/status'', 200, ''{status}''),
                    (''http://h:8888/tasks'', 200, ''[tasks]'')])
       ''http://h:8888'' no_effects)) =
     [\<lparr>Method = ''GET'', RequestURL = ''http://h:8888/status'', BasicAuth = None\<rparr>] \<and>
   metrics (snd (gatherTasks_rev1
       (test_world [(''http://h:8888/status'', 200, ''{status}''),
                    (''http://h:8888/tasks'', 200, ''[tasks]'')])
       ''http://h:8888'' no_effects)) = [] \<and>
   requests (snd (gatherTasks
       (test_world [(''http://h:8888/status'', 200, ''{status}''),
                    (''http://h:8888/tasks'', 200, ''[tasks]'')])
       ''http://h:8888'' no_effects)) =
     [\<lparr>Method = ''GET'', RequestURL = ''http://h:8888/tasks'', BasicAuth = None\<rparr>] \<and>
   length (metrics (snd (gatherTasks
       (test_world [(''http://h:8888/status'', 200, ''{status}''),
                    (''http://h:8888/tasks'', 200, ''[tasks]'')])
       ''http://h:8888'' no_effects))) = 1"
  by (simp add: gatherTasks_rev1_def gatherTasks_def getJson_def Decode_def test_world_defs
      gatherTasks_loop_metrics)

text \<open>
  C3 holds for the second revision (\<open>goroutine_reports_failure\<close>, \<open>goroutine_frame\<close>,
  \<open>gatherStatus_own_response\<close>, \<open>gatherTasks_own_response\<close>) and fails in the first: the
  function literal of lines 99 to 102 drops the error that the extractor returns, so
  nothing reaches the accumulator. Below, the server answers the status request with 500.
\<close>

theorem C3_rev1_failure_not_reported:
  "gatherStatus_rev1 (test_world [(''http://h:8888/status'', 500, ''internal error'')])
     ''http://h:8888'' no_effects =
     (Return (Some (InvalidStatus ''http://h:8888/status'' 500)),
      no_effects\<lparr>requests :=
        [\<lparr>Method = ''GET'', RequestURL = ''http://h:8888/status'', BasicAuth = None\<rparr>]\<rparr>) \<and>
   reported (snd (goroutine_rev1 (test_world [(''http://h:8888/status'', 500, ''internal error'')])
     ''http://h:8888'' gatherStatus_rev1 no_effects)) = [] \<and>
   reported (snd (goroutine (test_world [(''http://h:8888/status'', 500, ''internal error'')])
     ''http://h:8888'' gatherStatus no_effects)) =
     [InvalidStatus ''http://h:8888/status'' 500]"
  by (simp add: goroutine_rev1_def goroutine_def gatherStatus_rev1_def gatherStatus_def
      getJson_def AddError_def test_world_defs)

subsection \<open>The endpoint set\<close>

lemma endpoints_loop_filter:
  "endpoints_loop endpoints servers =
     endpoints @ map trim_endpoint (filter (\<lambda>s. HasPrefix s ''http'') servers)"
  by (induction servers arbitrary: endpoints) simp_all

lemma TrimRight_append_slash: "TrimRight (s @ ''/'') ''/'' = TrimRight s ''/''"
  by (simp add: TrimRight_def)

lemma TrimRight_no_slash: "\<not> HasSuffix s ''/'' \<Longrightarrow> TrimRight s ''/'' = s"
  by (cases s rule: rev_cases) (simp_all add: TrimRight_def HasSuffix_def)

lemma trim_endpoint_TrimRight: "trim_endpoint s = TrimRight s ''/''"
  by (simp add: trim_endpoint_def Let_def TrimRight_no_slash)

lemma HasSuffix_append_slash: "HasSuffix (s @ ''/'') ''/''"
  by (simp add: HasSuffix_def)

lemma HasPrefix_append: "HasPrefix s pre \<Longrightarrow> HasPrefix (s @ t) pre"
  by (auto simp: HasPrefix_def)

text \<open>
  C4, as the claim states it, fails for an entry that begins with the letters
  \<^verbatim>\<open>http\<close> and has no scheme at all: line 318 tests the prefix \<^verbatim>\<open>http\<close> only, so a host
  name such as the one below stays in the endpoint set.
\<close>

theorem C4_prefix_counterexample:
  "\<not> begins_with_http_scheme ''httpd.internal:8888'' \<and>
   Gather_endpoints \<lparr>Servers = [''httpd.internal:8888''], debug_mode = False\<rparr> =
     [''httpd.internal:8888'']"
  by (simp add: begins_with_http_scheme_def HasPrefix_def Gather_endpoints_def
      default_Servers_def trim_endpoint_def Let_def HasSuffix_def)

text \<open>
  C4, amended: \<^verbatim>\<open>Gather\<close> normalises the configured endpoints before the fan-out: an empty
  list gives exactly the endpoint \<^verbatim>\<open>http://localhost:8888\<close>; every entry that does not
  begin with the four bytes \<^verbatim>\<open>http\<close> is dropped, and the others are kept in their order;
  trailing slashes are stripped, so that an entry with a slash added is treated as the
  entry itself, \<^verbatim>\<open>http://host:8888/\<close> as \<^verbatim>\<open>http://host:8888\<close>.
\<close>

theorem C4_endpoint_normalisation:
  "(Servers g = [] \<longrightarrow> Gather_endpoints g = [''http://localhost:8888'']) \<and>
   Gather_endpoints g =
     map trim_endpoint (filter (\<lambda>s. HasPrefix s ''http'') (Servers (default_Servers g))) \<and>
   (\<not> HasPrefix entry ''http'' \<longrightarrow>
      Gather_endpoints (g\<lparr>Servers := before @ entry # after\<rparr>) =
      map trim_endpoint (filter (\<lambda>s. HasPrefix s ''http'') (before @ after))) \<and>
   (HasPrefix entry ''http'' \<longrightarrow>
      Gather_endpoints (g\<lparr>Servers := before @ (entry @ ''/'') # after\<rparr>) =
      Gather_endpoints (g\<lparr>Servers := before @ entry # after\<rparr>)) \<and>
   trim_endpoint ''http://host:8888/'' = ''http://host:8888'' \<and>
   trim_endpoint ''http://host:8888'' = ''http://host:8888''"
proof (intro conjI impI)
  assume "Servers g = []"
  then show "Gather_endpoints g = [''http://localhost:8888'']"
    by (simp add: Gather_endpoints_def default_Servers_def HasPrefix_def trim_endpoint_def Let_def
        HasSuffix_def)
next
  show "Gather_endpoints g =
     map trim_endpoint (filter (\<lambda>s. HasPrefix s ''http'') (Servers (default_Servers g)))"
    by (simp add: Gather_endpoints_def endpoints_loop_filter)
next
  assume "\<not> HasPrefix entry ''http''"
  then show "Gather_endpoints (g\<lparr>Servers := before @ entry # after\<rparr>) =
      map trim_endpoint (filter (\<lambda>s. HasPrefix s ''http'') (before @ after))"
    by (simp add: Gather_endpoints_def endpoints_loop_filter default_Servers_def)
next
  assume p: "HasPrefix entry ''http''"
  then have "HasPrefix (entry @ ''/'') ''http''" by (rule HasPrefix_append)
  moreover have "trim_endpoint (entry @ ''/'') = trim_endpoint entry"
    unfolding trim_endpoint_TrimRight by (rule TrimRight_append_slash)
  ultimately show "Gather_endpoints (g\<lparr>Servers := before @ (entry @ ''/'') # after\<rparr>) =
      Gather_endpoints (g\<lparr>Servers := before @ entry # after\<rparr>)"
    using p by (simp add: Gather_endpoints_def endpoints_loop_filter default_Servers_def)
next
  show "trim_endpoint ''http://host:8888/'' = ''http://host:8888''"
    by (simp add: trim_endpoint_def Let_def HasSuffix_def TrimRight_def)
next
  show "trim_endpoint ''http://host:8888'' = ''http://host:8888''"
    by (simp add: trim_endpoint_def Let_def HasSuffix_def TrimRight_def)
qed

theorem C4_endpoint_normalisation_witness:
  "Servers \<lparr>Servers = [], debug_mode = False\<rparr> = [] \<and>
   Gather_endpoints \<lparr>Servers = [], debug_mode = False\<rparr> = [''http://localhost:8888''] \<and>
   \<not> HasPrefix ''host:8888'' ''http'' \<and>
   Gather_endpoints \<lparr>Servers = [''http://a:1''] @ ''host:8888'' # [''https://b:2/''],
                     debug_mode = False\<rparr> =
     [''http://a:1'', ''https://b:2''] \<and>
   HasPrefix ''http://host:8888'' ''http'' \<and>
   Gather_endpoints \<lparr>Servers = [] @ (''http://host:8888'' @ ''/'') # [], debug_mode = False\<rparr> =
     Gather_endpoints \<lparr>Servers = [] @ ''http://host:8888'' # [], debug_mode = False\<rparr>"
proof -
  let ?g = "\<lparr>Servers = [], debug_mode = False\<rparr>"
  have s: "Servers ?g = []" by simp
  have n: "\<not> HasPrefix ''host:8888'' ''http''" by (simp add: HasPrefix_def)
  have h: "HasPrefix ''http://host:8888'' ''http''" by (simp add: HasPrefix_def)
  have t: "map trim_endpoint (filter (\<lambda>s. HasPrefix s ''http'') ([''http://a:1''] @ [''https://b:2/''])) =
      [''http://a:1'', ''https://b:2'']"
    by (simp add: HasPrefix_def trim_endpoint_def Let_def HasSuffix_def TrimRight_def)
  from C4_endpoint_normalisation [of ?g "''host:8888''" "[''http://a:1'']" "[''https://b:2/'']"]
       C4_endpoint_normalisation [of ?g "''http://host:8888''" "[]" "[]"] s n h t
  show ?thesis by simp
qed

subsection \<open>Fan-out and join\<close>

lemma length_launch_list:
  "length (launch_list gfs endpoints) = length endpoints * length gfs"
  by (induction endpoints) (simp_all add: launch_list_def)


lemma launch_list_member:
  "u \<in> set (launch_list gfs endpoints) \<Longrightarrow> fst u \<in> set endpoints \<and> snd u \<in> set gfs"
  by (auto simp: launch_list_def)

lemma mset_without_nth:
  assumes "i < length xs"
  shows "add_mset (xs ! i) (mset (take i xs @ drop (Suc i) xs)) = mset xs"
proof -
  from assms have "xs = take i xs @ xs ! i # drop (Suc i) xs" by (rule id_take_nth_drop)
  then have "mset xs = mset (take i xs @ xs ! i # drop (Suc i) xs)" by simp
  then show ?thesis by simp
qed

lemma length_without_nth:
  "i < length xs \<Longrightarrow> int (length (take i xs @ drop (Suc i) xs)) = int (length xs) - 1"
  by auto

lemma goroutine_unit_effects:
  assumes gf: "gf \<in> set gatherFunctions" and g: "goroutine w serv gf e = (r, e')"
  shows "r = fst (goroutine w serv gf no_effects)"
    and "e' = append_effects e (unit_effects w (serv, gf))"
  using goroutine_frame [OF gf, of w serv e] g by (simp_all add: unit_effects_def)

lemma join_invariant_init:
  "join_invariant w (launch_list gatherFunctions (Gather_endpoints g)) e (Gather_init g e)"
  by (simp add: join_invariant_def Gather_init_def Let_def length_launch_list)

lemma join_invariant_end:
  assumes inv: "join_invariant w units e c"
    and gfs: "\<And>u. u \<in> set units \<Longrightarrow> snd u \<in> set gatherFunctions"
    and i: "i < length (running c)" and u: "running c ! i = (serv, gf)"
    and g: "goroutine w serv gf (eff c) = (r, e')"
  shows "returned c = None"
    and "add_mset (serv, gf) (mset (take i (running c) @ drop (Suc i) (running c))) = mset (running c)"
    and "int (length (take i (running c) @ drop (Suc i) (running c))) = int (length (running c)) - 1"
    and "fst (goroutine w serv gf no_effects) = r"
    and "mset (requests e') = mset (requests (eff c)) + mset (requests (unit_effects w (serv, gf)))"
    and "mset (metrics e') = mset (metrics (eff c)) + mset (metrics (unit_effects w (serv, gf)))"
    and "mset (reported e') = mset (reported (eff c)) + mset (reported (unit_effects w (serv, gf)))"
proof -
  from i inv show "returned c = None" by (auto simp: join_invariant_def)
  from i u show m: "add_mset (serv, gf) (mset (take i (running c) @ drop (Suc i) (running c))) =
      mset (running c)"
    using mset_without_nth [of i "running c"] by simp
  from i show "int (length (take i (running c) @ drop (Suc i) (running c))) =
      int (length (running c)) - 1"
    by (rule length_without_nth)
  from i u have "(serv, gf) \<in> set (running c)" by (metis nth_mem)
  then have "(serv, gf) \<in># mset (pending c) + mset (running c) + mset (completed c) + mset (panicked c)"
    by simp
  with inv have "(serv, gf) \<in># mset units" by (simp add: join_invariant_def)
  then have "(serv, gf) \<in> set units" by simp
  from gfs [OF this] have gf: "gf \<in> set gatherFunctions" by simp
  from goroutine_unit_effects [OF gf g]
  have r: "r = fst (goroutine w serv gf no_effects)"
    and e': "e' = append_effects (eff c) (unit_effects w (serv, gf))"
    by simp_all
  from r show "fst (goroutine w serv gf no_effects) = r" by simp
  from e' show "mset (requests e') = mset (requests (eff c)) + mset (requests (unit_effects w (serv, gf)))"
    "mset (metrics e') = mset (metrics (eff c)) + mset (metrics (unit_effects w (serv, gf)))"
    "mset (reported e') = mset (reported (eff c)) + mset (reported (unit_effects w (serv, gf)))"
    by (simp_all add: append_effects_def)
qed

lemma gather_step_invariant:
  assumes step: "gather_step w c c'"
    and inv: "join_invariant w units e c"
    and gfs: "\<And>u. u \<in> set units \<Longrightarrow> snd u \<in> set gatherFunctions"
  shows "join_invariant w units e c'"
  using step
proof cases
  case (launch u us)
  with inv show ?thesis by (auto simp: join_invariant_def)
next
  case (finish i serv gf e')
  note f = join_invariant_end [OF inv gfs finish(2,3,4)]
  from inv have m: "mset (pending c) + mset (running c) + mset (completed c) + mset (panicked c) = mset units"
    by (simp add: join_invariant_def)
  have "mset (pending c) + mset (take i (running c) @ drop (Suc i) (running c)) +
      mset (completed c @ [(serv, gf)]) + mset (panicked c) =
      mset (pending c) + add_mset (serv, gf) (mset (take i (running c) @ drop (Suc i) (running c))) +
      mset (completed c) + mset (panicked c)"
    by simp
  also have "\<dots> = mset units" using f(2) m by simp
  finally have m': "mset (pending c) + mset (take i (running c) @ drop (Suc i) (running c)) +
      mset (completed c @ [(serv, gf)]) + mset (panicked c) = mset units" .
  from inv f(1,3,4,5,6,7) m' show ?thesis
    unfolding finish(1) join_invariant_def
    by (simp del: mset_append add: mset_append [of "completed c" "[(serv, gf)]"])
next
  case (panic i serv gf e')
  note f = join_invariant_end [OF inv gfs panic(2,3,4)]
  from inv have m: "mset (pending c) + mset (running c) + mset (completed c) + mset (panicked c) = mset units"
    by (simp add: join_invariant_def)
  have "mset (pending c) + mset (take i (running c) @ drop (Suc i) (running c)) +
      mset (completed c) + mset (panicked c @ [(serv, gf)]) =
      mset (pending c) + add_mset (serv, gf) (mset (take i (running c) @ drop (Suc i) (running c))) +
      mset (completed c) + mset (panicked c)"
    by simp
  also have "\<dots> = mset units" using f(2) m by simp
  finally have m': "mset (pending c) + mset (take i (running c) @ drop (Suc i) (running c)) +
      mset (completed c) + mset (panicked c @ [(serv, gf)]) = mset units" .
  from inv f(1,3,4,5,6,7) m' show ?thesis
    unfolding panic(1) join_invariant_def
    by (simp del: mset_append add: mset_append [of "panicked c" "[(serv, gf)]"])
next
  case wait_return
  with inv show ?thesis by (auto simp: join_invariant_def)
qed

lemma reachable_invariant:
  assumes "reachable w g e c"
  shows "join_invariant w (launch_list gatherFunctions (Gather_endpoints g)) e c"
  using assms unfolding reachable_def
proof (induction rule: rtranclp_induct)
  case base
  show ?case by (rule join_invariant_init)
next
  case (step c c')
  show ?case
    using step.hyps(2) step.IH
  proof (rule gather_step_invariant)
    fix u
    assume "u \<in> set (launch_list gatherFunctions (Gather_endpoints g))"
    then show "snd u \<in> set gatherFunctions" by (simp add: launch_list_member)
  qed
qed

lemma Gather_returns_nil:
  "reachable w g e c \<Longrightarrow> returned c = Some r \<Longrightarrow> r = None"
  using reachable_invariant [of w g e c] by (auto simp: join_invariant_def)






end
